theory Spec2Isabelle
  imports Complex_Main "HOL-Library.Word"
begin

section \<open>The relationship graph view of app/ui/assets/app.js\<close>

text \<open>
  The class \<open>RelationshipGraphView\<close> (app.js, lines 1373 to 1787) is embedded as functions
  on a record of its fields. JavaScript numbers are taken as real numbers: rounding,
  infinities and NaN of IEEE doubles are not modelled. A JavaScript string is the list of
  its UTF-16 code units, so that \<open>charCodeAt\<close> is the list element. A raw document is
  modelled after the coercions the builder applies to each field
  (\<open>String(v || "")\<close>, \<open>Array.isArray(v) ? v : []\<close>): an absent field is the empty string
  or the empty list.
\<close>

subsection \<open>Strings\<close>

type_synonym jsstring = "16 word list"

definition is_space :: "16 word \<Rightarrow> bool" where
  \<comment> \<open>WhiteSpace and LineTerminator of ECMAScript, the code units \<open>trim\<close> removes\<close>
  "is_space c \<longleftrightarrow>
     c = 9 \<or> c = 10 \<or> c = 11 \<or> c = 12 \<or> c = 13 \<or> c = 32 \<or> c = 160 \<or> c = 5760
     \<or> (8192 \<le> c \<and> c \<le> 8202) \<or> c = 8232 \<or> c = 8233 \<or> c = 8239 \<or> c = 8287
     \<or> c = 12288 \<or> c = 65279"

definition js_trim :: "jsstring \<Rightarrow> jsstring" where
  "js_trim s = rev (dropWhile is_space (rev (dropWhile is_space s)))"

fun js_join :: "jsstring \<Rightarrow> jsstring list \<Rightarrow> jsstring" where
  "js_join sep [] = []"
| "js_join sep [t] = t"
| "js_join sep (t # u # us) = t @ sep @ js_join sep (u # us)"

subsection \<open>Data\<close>

record raw_node =
  rn_id :: jsstring
  rn_title :: jsstring
  rn_authors :: jsstring
  rn_year :: jsstring
  rn_tags :: "jsstring list"
  rn_summary :: jsstring

record raw_edge =
  re_source :: jsstring
  re_target :: jsstring
  re_type :: jsstring
  re_weight :: "real option"  \<comment> \<open>\<open>None\<close>: absent or not a number\<close>
  re_reason :: jsstring

record graph_document =
  g_nodes :: "raw_node list"
  g_edges :: "raw_edge list"
  g_clusters :: "jsstring list list"  \<comment> \<open>the \<open>node_ids\<close> of each cluster\<close>

record sim_node =
  n_id :: jsstring
  n_title :: jsstring
  n_authors :: jsstring
  n_year :: jsstring
  n_tags :: "jsstring list"
  n_summary :: jsstring
  n_color :: string
  n_x :: real
  n_y :: real
  n_vx :: real
  n_vy :: real
  n_fx :: real
  n_fy :: real
  n_r :: real
  n_degree :: nat
  n_fixed :: bool

record sim_edge =
  e_a :: nat
  e_b :: nat
  e_type :: jsstring
  e_weight :: int
  e_reason :: jsstring

record view =
  nodes :: "sim_node list"
  edges :: "sim_edge list"
  nodeIndex :: "jsstring \<rightharpoonup> nat"
  hoverIndex :: int
  dragIndex :: int
  running :: bool
  width :: "real option"   \<comment> \<open>\<open>None\<close>: \<open>resize\<close> never assigned it\<close>
  height :: "real option"
  tooltipShown :: bool

datatype error = TypeError  \<comment> \<open>a property read or written on \<open>undefined\<close>\<close>

subsection \<open>setGraph: colours\<close>

definition add_cluster :: "nat \<Rightarrow> jsstring list \<Rightarrow> (jsstring \<rightharpoonup> nat) \<Rightarrow> (jsstring \<rightharpoonup> nat)" where
  "add_cluster idx ids m = fold (\<lambda>k m. if m k = None then m(k \<mapsto> idx) else m) ids m"

definition clusterByNode :: "jsstring list list \<Rightarrow> (jsstring \<rightharpoonup> nat)" where
  "clusterByNode clustersRaw =
     fold (\<lambda>(idx, ids) m. add_cluster idx ids m)
       (zip [0..<length clustersRaw] clustersRaw) Map.empty"

definition palette :: "string list" where
  "palette = [''#059669'', ''#10b981'', ''#34d399'', ''#064e3b'',
              ''#065f46'', ''#047857'', ''#14b8a6'', ''#0d9488'']"

definition colorForCluster :: "nat \<Rightarrow> string" where
  "colorForCluster idx = palette ! (idx mod length palette)"

definition hash :: "jsstring \<Rightarrow> 32 word" where
  \<comment> \<open>\<open>h = (h * 31 + s.charCodeAt(i)) >>> 0\<close>, from \<open>h = 0\<close>\<close>
  "hash s = fold (\<lambda>c h. h * 31 + ucast c) s 0"

subsection \<open>setGraph: nodes, index and edges\<close>

definition make_node :: "(jsstring \<rightharpoonup> nat) \<Rightarrow> raw_node \<Rightarrow> sim_node option" where
  "make_node cbn n =
     (let ident = js_trim (rn_id n);
          ttl = js_trim (if rn_title n = [] then ident else rn_title n)
      in if ident = [] then None
         else
           let tags = rn_tags n;
               joined = js_join [124] tags;
               color = (case cbn ident of
                          Some clusterIdx \<Rightarrow> colorForCluster clusterIdx
                        | None \<Rightarrow>
                            colorForCluster (unat (hash (if joined = [] then ttl else joined))))
           in Some \<lparr> n_id = ident, n_title = ttl,
                     n_authors = js_trim (rn_authors n), n_year = js_trim (rn_year n),
                     n_tags = tags, n_summary = js_trim (rn_summary n),
                     n_color = color, n_x = 0, n_y = 0, n_vx = 0, n_vy = 0,
                     n_fx = 0, n_fy = 0, n_r = 12, n_degree = 0, n_fixed = False \<rparr>)"

definition build_nodes :: "graph_document \<Rightarrow> sim_node list" where
  "build_nodes g = List.map_filter (make_node (clusterByNode (g_clusters g))) (g_nodes g)"

definition build_index :: "sim_node list \<Rightarrow> (jsstring \<rightharpoonup> nat)" where
  \<comment> \<open>\<open>new Map(nodes.map((n, idx) => [n.id, idx]))\<close>: a later entry replaces an earlier one\<close>
  "build_index ns =
     fold (\<lambda>(k, idx) m. m(k \<mapsto> idx)) (zip (map n_id ns) [0..<length ns]) Map.empty"

definition js_round :: "real \<Rightarrow> int" where
  "js_round v = \<lfloor>v + 1 / 2\<rfloor>"

definition related :: jsstring where
  "related = [114, 101, 108, 97, 116, 101, 100]"

definition make_edge :: "(jsstring \<rightharpoonup> nat) \<Rightarrow> raw_edge \<Rightarrow> sim_edge option" where
  "make_edge idx e =
     (case idx (re_source e) of
        None \<Rightarrow> None
      | Some a \<Rightarrow>
          (case idx (re_target e) of
             None \<Rightarrow> None
           | Some b \<Rightarrow>
               if a = b then None
               else
                 let w0 = (case re_weight e of None \<Rightarrow> 3 | Some v \<Rightarrow> if v = 0 then 3 else v)
                 in Some \<lparr> e_a = a, e_b = b,
                           e_type = (if re_type e = [] then related else re_type e),
                           e_weight = max 1 (min 5 (js_round w0)),
                           e_reason = js_trim (re_reason e) \<rparr>))"

definition build_edges :: "(jsstring \<rightharpoonup> nat) \<Rightarrow> raw_edge list \<Rightarrow> sim_edge list" where
  "build_edges idx edgesRaw = List.map_filter (make_edge idx) edgesRaw"

subsection \<open>setGraph: degrees and radius\<close>

definition bump_degree :: "nat \<Rightarrow> sim_node list \<Rightarrow> error + sim_node list" where
  \<comment> \<open>\<open>this.nodes[i].degree += 1\<close>\<close>
  "bump_degree i ns =
     (if i < length ns then Inr (ns[i := (ns ! i)\<lparr>n_degree := n_degree (ns ! i) + 1\<rparr>])
      else Inl TypeError)"

fun count_degrees :: "sim_edge list \<Rightarrow> sim_node list \<Rightarrow> error + sim_node list" where
  "count_degrees [] ns = Inr ns"
| "count_degrees (e # es) ns =
     (case bump_degree (e_a e) ns of
        Inl err \<Rightarrow> Inl err
      | Inr ns1 \<Rightarrow>
          (case bump_degree (e_b e) ns1 of
             Inl err \<Rightarrow> Inl err
           | Inr ns2 \<Rightarrow> count_degrees es ns2))"

definition radius_of :: "nat \<Rightarrow> real" where
  "radius_of d = max 10 (min 24 (10 + real d * 1.2))"

definition set_radius :: "sim_node \<Rightarrow> sim_node" where
  "set_radius n = n\<lparr>n_r := radius_of (n_degree n)\<rparr>"

subsection \<open>Construction and resize\<close>

definition resize :: "(real \<times> real) option \<Rightarrow> view \<Rightarrow> view" where
  \<comment> \<open>the argument is \<open>clientWidth\<close> and \<open>clientHeight\<close> of the wrapping element,
      \<open>None\<close> without one\<close>
  "resize wrap s =
     (case wrap of
        None \<Rightarrow> s
      | Some (cw, ch) \<Rightarrow>
          s\<lparr>width := Some (max 10 (if cw = 0 then 10 else cw)),
            height := Some (max 10 (if ch = 0 then 10 else ch))\<rparr>)"

definition new_view :: "(real \<times> real) option \<Rightarrow> view" where
  "new_view wrap =
     resize wrap \<lparr> nodes = [], edges = [], nodeIndex = Map.empty, hoverIndex = - 1,
                   dragIndex = - 1, running = False, width = None, height = None,
                   tooltipShown = False \<rparr>"

subsection \<open>The animation switch\<close>

definition start :: "view \<Rightarrow> view" where
  \<comment> \<open>the frame requests and the 2200 ms timer are outside the model\<close>
  "start s = (if running s then s else s\<lparr>running := True\<rparr>)"

definition stop :: "view \<Rightarrow> view" where
  "stop s = (if \<not> running s then s else s\<lparr>running := False\<rparr>)"

subsection \<open>The simulation step\<close>

definition eff_width :: "view \<Rightarrow> real" where
  \<comment> \<open>\<open>this.width || 800\<close>\<close>
  "eff_width s = (case width s of None \<Rightarrow> 800 | Some v \<Rightarrow> if v = 0 then 800 else v)"

definition eff_height :: "view \<Rightarrow> real" where
  \<comment> \<open>\<open>this.height || 600\<close>\<close>
  "eff_height s = (case height s of None \<Rightarrow> 600 | Some v \<Rightarrow> if v = 0 then 600 else v)"

definition reset_forces :: "sim_node list \<Rightarrow> sim_node list" where
  "reset_forces ns = map (\<lambda>n. n\<lparr>n_fx := 0, n_fy := 0\<rparr>) ns"

definition repulse_vec :: "sim_node \<Rightarrow> sim_node \<Rightarrow> real \<times> real" where
  \<comment> \<open>lines 1565 to 1571 for \<open>a = nodes[i]\<close>, \<open>b = nodes[j]\<close>: the vector \<open>(dx * f, dy * f)\<close>\<close>
  "repulse_vec a b =
     (let dx = n_x b - n_x a;
          dy = n_y b - n_y a;
          dist2 = dx * dx + dy * dy + 0.01;
          inv = 1 / sqrt dist2;
          dx1 = dx * inv;
          dy1 = dy * inv;
          f = 5600 / dist2
      in (dx1 * f, dy1 * f))"

definition repulse_pair :: "nat \<Rightarrow> nat \<Rightarrow> sim_node list \<Rightarrow> sim_node list" where
  \<comment> \<open>the body of the inner loop, lines 1564 to 1575; \<open>i < j < length ns\<close> there\<close>
  "repulse_pair i j ns =
     (let p = repulse_vec (ns ! i) (ns ! j);
          ns1 = ns[i := (ns ! i)\<lparr>n_fx := n_fx (ns ! i) - fst p,
                                n_fy := n_fy (ns ! i) - snd p\<rparr>]
      in ns1[j := (ns1 ! j)\<lparr>n_fx := n_fx (ns1 ! j) + fst p,
                             n_fy := n_fy (ns1 ! j) + snd p\<rparr>])"

definition repulsion :: "sim_node list \<Rightarrow> sim_node list" where
  "repulsion ns =
     (let n = length ns
      in fold (\<lambda>i. fold (repulse_pair i) [Suc i..<n]) [0..<n] ns)"

definition link_pair :: "real \<Rightarrow> sim_edge \<Rightarrow> sim_node list \<Rightarrow> error + sim_node list" where
  \<comment> \<open>the body of the loop over the edges, lines 1582 to 1596; reading \<open>.x\<close> of a node
      that is not there throws\<close>
  "link_pair baseDist e ns =
     (if e_a e < length ns \<and> e_b e < length ns then
        let a = ns ! e_a e; b = ns ! e_b e;
            dx = n_x b - n_x a;
            dy = n_y b - n_y a;
            dist = sqrt (dx * dx + dy * dy) + 0.01;
            target = baseDist * (1.0 - (real_of_int (e_weight e) - 3) * 0.08);
            strength = 0.015 * real_of_int (e_weight e);
            diff = dist - target;
            fx = (dx / dist) * diff * strength;
            fy = (dy / dist) * diff * strength;
            ns1 = ns[e_a e := (ns ! e_a e)\<lparr>n_fx := n_fx (ns ! e_a e) + fx,
                                          n_fy := n_fy (ns ! e_a e) + fy\<rparr>]
        in Inr (ns1[e_b e := (ns1 ! e_b e)\<lparr>n_fx := n_fx (ns1 ! e_b e) - fx,
                                           n_fy := n_fy (ns1 ! e_b e) - fy\<rparr>])
      else Inl TypeError)"

fun link_attraction :: "real \<Rightarrow> sim_edge list \<Rightarrow> sim_node list \<Rightarrow> error + sim_node list" where
  "link_attraction baseDist [] ns = Inr ns"
| "link_attraction baseDist (e # es) ns =
     (case link_pair baseDist e ns of
        Inl err \<Rightarrow> Inl err
      | Inr ns1 \<Rightarrow> link_attraction baseDist es ns1)"

definition center_gravity :: "real \<Rightarrow> real \<Rightarrow> sim_node list \<Rightarrow> sim_node list" where
  "center_gravity cx cy ns =
     map (\<lambda>node. node\<lparr>n_fx := n_fx node + (cx - n_x node) * 0.012,
                      n_fy := n_fy node + (cy - n_y node) * 0.012\<rparr>) ns"

definition integrate :: "real \<Rightarrow> real \<Rightarrow> real \<Rightarrow> real \<Rightarrow> sim_node \<Rightarrow> sim_node" where
  \<comment> \<open>the body of the last loop, lines 1610 to 1621\<close>
  "integrate damping margin w h node =
     (if n_fixed node then node\<lparr>n_vx := 0, n_vy := 0\<rparr>
      else
        let vx = (n_vx node + n_fx node) * damping;
            vy = (n_vy node + n_fy node) * damping;
            x1 = n_x node + vx;
            y1 = n_y node + vy
        in node\<lparr>n_vx := vx, n_vy := vy,
                n_x := max margin (min (w - margin) x1),
                n_y := max margin (min (h - margin) y1)\<rparr>)"

definition accumulate_forces :: "view \<Rightarrow> error + sim_node list" where
  \<comment> \<open>lines 1553 to 1605: reset, repulsion, link attraction, center gravity\<close>
  "accumulate_forces s =
     (let w = eff_width s; h = eff_height s;
          cx = w / 2; cy = h / 2;
          ns1 = repulsion (reset_forces (nodes s));
          baseDist = max 80 (min 180 (min w h * 0.18))
      in case link_attraction baseDist (edges s) ns1 of
           Inl err \<Rightarrow> Inl err
         | Inr ns2 \<Rightarrow> Inr (center_gravity cx cy ns2))"

definition damping_of :: "bool \<Rightarrow> real" where
  "damping_of isWarmup = (if isWarmup then 0.82 else 0.88)"

definition tick :: "bool \<Rightarrow> view \<Rightarrow> error + view" where
  "tick isWarmup s =
     (if nodes s = [] then Inr s
      else
        case accumulate_forces s of
          Inl err \<Rightarrow> Inl err
        | Inr ns \<Rightarrow>
            Inr (s\<lparr>nodes :=
                     map (integrate (damping_of isWarmup) 18 (eff_width s) (eff_height s)) ns\<rparr>))"

fun warmup :: "nat \<Rightarrow> view \<Rightarrow> error + view" where
  "warmup 0 s = Inr s"
| "warmup (Suc k) s =
     (case tick True s of
        Inl err \<Rightarrow> Inl err
      | Inr s1 \<Rightarrow> warmup k s1)"

fun ticks :: "bool list \<Rightarrow> view \<Rightarrow> error + view" where
  \<comment> \<open>a run of calls of \<open>_tick\<close>, each with its own \<open>isWarmup\<close>\<close>
  "ticks [] s = Inr s"
| "ticks (isWarmup # rest) s =
     (case tick isWarmup s of
        Inl err \<Rightarrow> Inl err
      | Inr s1 \<Rightarrow> ticks rest s1)"

subsection \<open>setGraph\<close>

definition seed_position ::
  "real \<Rightarrow> real \<Rightarrow> real \<Rightarrow> nat \<Rightarrow> (nat \<Rightarrow> real) \<Rightarrow> nat \<Rightarrow> sim_node \<Rightarrow> sim_node" where
  \<comment> \<open>\<open>rnd\<close> is the sequence of results of \<open>Math.random()\<close>, two draws for each node\<close>
  "seed_position cx cy radius nCount rnd i n =
     (let ang = (real i / real nCount) * pi * 2
      in n\<lparr>n_x := cx + cos ang * radius + (rnd (2 * i) - 0.5) * 12,
            n_y := cy + sin ang * radius + (rnd (2 * i + 1) - 0.5) * 12,
            n_vx := 0, n_vy := 0, n_fixed := False\<rparr>)"

definition setGraph :: "view \<Rightarrow> graph_document \<Rightarrow> (nat \<Rightarrow> real) \<Rightarrow> error + view" where
  "setGraph s g rnd =
     (let ns0 = build_nodes g;
          idx = build_index ns0;
          es = build_edges idx (g_edges g)
      in case count_degrees es (map (\<lambda>n. n\<lparr>n_degree := 0\<rparr>) ns0) of
           Inl err \<Rightarrow> Inl err
         | Inr ns1 \<Rightarrow>
             let ns2 = map set_radius ns1;
                 w = eff_width s; h = eff_height s;
                 cx = w / 2; cy = h / 2;
                 radius = max 120 (min w h * 0.32);
                 nCount = max 1 (length ns2);
                 ns3 = map (\<lambda>(i, n). seed_position cx cy radius nCount rnd i n)
                         (zip [0..<length ns2] ns2);
                 s1 = s\<lparr>nodes := ns3, edges := es, nodeIndex := idx,
                         hoverIndex := - 1, dragIndex := - 1\<rparr>
             in case warmup (min 420 (80 + length ns3 * 6)) s1 of
                  Inl err \<Rightarrow> Inl err
                | Inr s2 \<Rightarrow> Inr (start s2))"

subsection \<open>Pointer events\<close>

fun findNodeAt_from :: "nat \<Rightarrow> sim_node list \<Rightarrow> real \<times> real \<Rightarrow> int" where
  \<comment> \<open>the loop of \<open>findNodeAt\<close> with \<open>i\<close> still to visit: indices \<open>i - 1\<close> down to 0\<close>
  "findNodeAt_from 0 ns pos = - 1"
| "findNodeAt_from (Suc i) ns pos =
     (let n = ns ! i;
          dx = fst pos - n_x n;
          dy = snd pos - n_y n
      in if dx * dx + dy * dy \<le> (n_r n + 3) * (n_r n + 3) then int i
         else findNodeAt_from i ns pos)"

definition findNodeAt :: "view \<Rightarrow> real \<times> real \<Rightarrow> int" where
  "findNodeAt s pos = findNodeAt_from (length (nodes s)) (nodes s) pos"

definition mousemove :: "view \<Rightarrow> real \<times> real \<Rightarrow> error + view" where
  \<comment> \<open>the text and the place of the tooltip are outside the model\<close>
  "mousemove s pos =
     (if dragIndex s \<ge> 0 then
        (if nat (dragIndex s) < length (nodes s) then
           Inr (start (s\<lparr>nodes := (nodes s)[nat (dragIndex s) :=
                  (nodes s ! nat (dragIndex s))\<lparr>n_x := fst pos, n_y := snd pos\<rparr>]\<rparr>))
         else Inl TypeError)
      else
        let idx = findNodeAt s pos;
            s1 = (if idx \<noteq> hoverIndex s then s\<lparr>hoverIndex := idx\<rparr> else s)
        in Inr (s1\<lparr>tooltipShown := (idx \<ge> 0)\<rparr>))"

definition mouseleave :: "view \<Rightarrow> view" where
  "mouseleave s = s\<lparr>hoverIndex := - 1, dragIndex := - 1, tooltipShown := False\<rparr>"

definition mousedown :: "view \<Rightarrow> int \<Rightarrow> real \<times> real \<Rightarrow> view" where
  "mousedown s button pos =
     (if button \<noteq> 0 then s
      else
        let idx = findNodeAt s pos
        in if idx < 0 then s
           else start (s\<lparr>dragIndex := idx,
                    nodes := (nodes s)[nat idx :=
                      (nodes s ! nat idx)\<lparr>n_fixed := True, n_x := fst pos, n_y := snd pos\<rparr>]\<rparr>))"

definition mouseup :: "view \<Rightarrow> error + view" where
  "mouseup s =
     (if dragIndex s < 0 then Inr s
      else if nat (dragIndex s) < length (nodes s) then
        Inr (start (s\<lparr>nodes := (nodes s)[nat (dragIndex s) :=
               (nodes s ! nat (dragIndex s))\<lparr>n_fixed := False\<rparr>],
             dragIndex := - 1\<rparr>))
      else Inl TypeError)"

subsection \<open>Drawing\<close>

record edge_stroke =
  st_alpha :: real
  st_width :: real
  st_from :: "real \<times> real"
  st_to :: "real \<times> real"

record node_disc =
  di_alpha :: real
  di_color :: string
  di_center :: "real \<times> real"
  di_radius :: real

definition adjacent :: "view \<Rightarrow> nat set" where
  "adjacent s =
     (if hoverIndex s \<ge> 0 then
        fold (\<lambda>e adj. if int (e_a e) = hoverIndex s then insert (e_b e) adj
                       else if int (e_b e) = hoverIndex s then insert (e_a e) adj
                       else adj) (edges s) {}
      else {})"

definition edge_focus :: "view \<Rightarrow> sim_edge \<Rightarrow> bool" where
  "edge_focus s e \<longleftrightarrow>
     hoverIndex s < 0 \<or> int (e_a e) = hoverIndex s \<or> int (e_b e) = hoverIndex s"

definition draw_edge :: "view \<Rightarrow> sim_edge \<Rightarrow> error + edge_stroke" where
  \<comment> \<open>the body of the loop over the edges, lines 1737 to 1747\<close>
  "draw_edge s e =
     (if e_a e < length (nodes s) \<and> e_b e < length (nodes s) then
        let a = nodes s ! e_a e; b = nodes s ! e_b e
        in Inr \<lparr> st_alpha = (if edge_focus s e then 0.55 else 0.12),
                 st_width = 1 + (real_of_int (e_weight e) - 3) * 0.7,
                 st_from = (n_x a, n_y a), st_to = (n_x b, n_y b) \<rparr>
      else Inl TypeError)"

fun draw_edges :: "view \<Rightarrow> sim_edge list \<Rightarrow> error + edge_stroke list" where
  "draw_edges s [] = Inr []"
| "draw_edges s (e # es) =
     (case draw_edge s e of
        Inl err \<Rightarrow> Inl err
      | Inr st \<Rightarrow>
          (case draw_edges s es of
             Inl err \<Rightarrow> Inl err
           | Inr sts \<Rightarrow> Inr (st # sts)))"

definition draw_node :: "view \<Rightarrow> nat \<Rightarrow> node_disc" where
  "draw_node s i =
     (let n = nodes s ! i;
          focus = (hoverIndex s < 0 \<or> int i = hoverIndex s \<or> i \<in> adjacent s)
      in \<lparr> di_alpha = (if focus then 1 else 0.25), di_color = n_color n,
            di_center = (n_x n, n_y n), di_radius = n_r n \<rparr>)"

definition draw :: "view \<Rightarrow> error + edge_stroke list \<times> node_disc list" where
  \<comment> \<open>the strokes and the discs painted, in order; the labels are outside the model\<close>
  "draw s =
     (case draw_edges s (edges s) of
        Inl err \<Rightarrow> Inl err
      | Inr sts \<Rightarrow> Inr (sts, map (draw_node s) [0..<length (nodes s)]))"

subsection \<open>Projections for the proofs\<close>

definition unforced :: "sim_node \<Rightarrow> sim_node" where
  \<comment> \<open>a node without its force accumulator\<close>
  "unforced n = n\<lparr>n_fx := 0, n_fy := 0\<rparr>"

definition frame :: "sim_node \<Rightarrow> sim_node" where
  \<comment> \<open>a node without position, velocity and force: what no simulation step writes\<close>
  "frame n = n\<lparr>n_x := 0, n_y := 0, n_vx := 0, n_vy := 0, n_fx := 0, n_fy := 0\<rparr>"

definition edges_ok :: "sim_edge list \<Rightarrow> sim_node list \<Rightarrow> bool" where
  \<comment> \<open>both endpoints of every edge index a node\<close>
  "edges_ok es ns \<longleftrightarrow> list_all (\<lambda>e. e_a e < length ns \<and> e_b e < length ns) es"

definition incident :: "sim_edge list \<Rightarrow> nat \<Rightarrow> nat" where
  \<comment> \<open>the number of edges with the node at index \<open>i\<close> as an endpoint\<close>
  "incident es i = length (filter (\<lambda>e. e_a e = i \<or> e_b e = i) es)"

subsection \<open>Example inputs\<close>

definition example_doc :: graph_document where
  \<comment> \<open>nodes "A", " A ", "B", " " and "D"; edges A-B, B-A, A-A, A-C and D-B\<close>
  "example_doc =
     \<lparr> g_nodes =
         [\<lparr> rn_id = [65], rn_title = [], rn_authors = [], rn_year = [], rn_tags = [],
             rn_summary = [] \<rparr>,
          \<lparr> rn_id = [32, 65, 32], rn_title = [], rn_authors = [], rn_year = [], rn_tags = [],
             rn_summary = [] \<rparr>,
          \<lparr> rn_id = [66], rn_title = [], rn_authors = [], rn_year = [], rn_tags = [],
             rn_summary = [] \<rparr>,
          \<lparr> rn_id = [32], rn_title = [], rn_authors = [], rn_year = [], rn_tags = [],
             rn_summary = [] \<rparr>,
          \<lparr> rn_id = [68], rn_title = [], rn_authors = [], rn_year = [], rn_tags = [],
             rn_summary = [] \<rparr>],
       g_edges =
         [\<lparr> re_source = [65], re_target = [66], re_type = [], re_weight = None,
             re_reason = [] \<rparr>,
          \<lparr> re_source = [66], re_target = [65], re_type = [], re_weight = Some 5,
             re_reason = [] \<rparr>,
          \<lparr> re_source = [65], re_target = [65], re_type = [], re_weight = None,
             re_reason = [] \<rparr>,
          \<lparr> re_source = [65], re_target = [67], re_type = [], re_weight = None,
             re_reason = [] \<rparr>,
          \<lparr> re_source = [68], re_target = [66], re_type = [], re_weight = Some 1,
             re_reason = [] \<rparr>],
       g_clusters = [] \<rparr>"

definition blank_doc :: graph_document where
  \<comment> \<open>one raw node whose id is a blank, and one edge\<close>
  "blank_doc =
     \<lparr> g_nodes =
         [\<lparr> rn_id = [32], rn_title = [65], rn_authors = [], rn_year = [], rn_tags = [],
             rn_summary = [] \<rparr>],
       g_edges =
         [\<lparr> re_source = [65], re_target = [66], re_type = [], re_weight = None,
             re_reason = [] \<rparr>],
       g_clusters = [] \<rparr>"

definition path_view :: view where
  \<comment> \<open>three nodes X, Y, Z in a row, the edges X-Y and Y-Z, the pointer over X\<close>
  "path_view =
     \<lparr> nodes =
         [\<lparr> n_id = [88], n_title = [88], n_authors = [], n_year = [], n_tags = [],
             n_summary = [], n_color = ''#059669'', n_x = 100, n_y = 300, n_vx = 0, n_vy = 0,
             n_fx = 0, n_fy = 0, n_r = 11.2, n_degree = 1, n_fixed = False \<rparr>,
          \<lparr> n_id = [89], n_title = [89], n_authors = [], n_year = [], n_tags = [],
             n_summary = [], n_color = ''#10b981'', n_x = 300, n_y = 300, n_vx = 0, n_vy = 0,
             n_fx = 0, n_fy = 0, n_r = 12.4, n_degree = 2, n_fixed = False \<rparr>,
          \<lparr> n_id = [90], n_title = [90], n_authors = [], n_year = [], n_tags = [],
             n_summary = [], n_color = ''#34d399'', n_x = 500, n_y = 300, n_vx = 0, n_vy = 0,
             n_fx = 0, n_fy = 0, n_r = 11.2, n_degree = 1, n_fixed = False \<rparr>],
       edges =
         [\<lparr> e_a = 0, e_b = 1, e_type = related, e_weight = 3, e_reason = [] \<rparr>,
          \<lparr> e_a = 1, e_b = 2, e_type = related, e_weight = 3, e_reason = [] \<rparr>],
       nodeIndex = [[88] \<mapsto> 0, [89] \<mapsto> 1, [90] \<mapsto> 2],
       hoverIndex = 0, dragIndex = - 1, running = False,
       width = Some 800, height = Some 600, tooltipShown = True \<rparr>"

definition margin_view :: view where
  \<comment> \<open>two linked nodes, the first 20 pixels from the left border\<close>
  "margin_view =
     \<lparr> nodes =
         [\<lparr> n_id = [88], n_title = [88], n_authors = [], n_year = [], n_tags = [],
             n_summary = [], n_color = ''#059669'', n_x = 20, n_y = 300, n_vx = 0, n_vy = 0,
             n_fx = 0, n_fy = 0, n_r = 11.2, n_degree = 1, n_fixed = False \<rparr>,
          \<lparr> n_id = [89], n_title = [89], n_authors = [], n_year = [], n_tags = [],
             n_summary = [], n_color = ''#10b981'', n_x = 300, n_y = 300, n_vx = 0, n_vy = 0,
             n_fx = 0, n_fy = 0, n_r = 11.2, n_degree = 1, n_fixed = False \<rparr>],
       edges = [\<lparr> e_a = 0, e_b = 1, e_type = related, e_weight = 3, e_reason = [] \<rparr>],
       nodeIndex = [[88] \<mapsto> 0, [89] \<mapsto> 1],
       hoverIndex = - 1, dragIndex = - 1, running = False,
       width = Some 800, height = Some 600, tooltipShown = False \<rparr>"

definition pressed_view :: view where
  \<comment> \<open>\<open>margin_view\<close> after a press of the main button at (8, 300), on its first node\<close>
  "pressed_view = mousedown margin_view 0 (8, 300)"

definition tagged_doc :: graph_document where
  \<comment> \<open>"p" titled "A" with the one tag "", in no cluster; "q" with the tags "x" and "y",
      in no cluster; "r" in the clusters 1 and 2; "t" titled "E" with the two tags "" and "",
      in no cluster\<close>
  "tagged_doc =
     \<lparr> g_nodes =
         [\<lparr> rn_id = [112], rn_title = [65], rn_authors = [], rn_year = [], rn_tags = [[]],
             rn_summary = [] \<rparr>,
          \<lparr> rn_id = [113], rn_title = [66], rn_authors = [], rn_year = [],
             rn_tags = [[120], [121]], rn_summary = [] \<rparr>,
          \<lparr> rn_id = [114], rn_title = [67], rn_authors = [], rn_year = [], rn_tags = [],
             rn_summary = [] \<rparr>,
          \<lparr> rn_id = [116], rn_title = [69], rn_authors = [], rn_year = [], rn_tags = [[], []],
             rn_summary = [] \<rparr>],
       g_edges = [],
       g_clusters = [[[122]], [[114]], [[114], [113, 113]]] \<rparr>"

definition stacked_nodes :: "sim_node list" where
  \<comment> \<open>two nodes at the same position\<close>
  "stacked_nodes =
     [\<lparr> n_id = [88], n_title = [88], n_authors = [], n_year = [], n_tags = [],
         n_summary = [], n_color = ''#059669'', n_x = 400, n_y = 300, n_vx = 0, n_vy = 0,
         n_fx = 0, n_fy = 0, n_r = 10, n_degree = 0, n_fixed = False \<rparr>,
      \<lparr> n_id = [89], n_title = [89], n_authors = [], n_year = [], n_tags = [],
         n_summary = [], n_color = ''#10b981'', n_x = 400, n_y = 300, n_vx = 0, n_vy = 0,
         n_fx = 0, n_fy = 0, n_r = 10, n_degree = 0, n_fixed = False \<rparr>]"

section \<open>Lemmas\<close>



subsection \<open>What the force phases leave alone\<close>

lemma unforced_upd [simp]:
  "unforced (n\<lparr>n_fx := a\<rparr>) = unforced n" "unforced (n\<lparr>n_fy := a\<rparr>) = unforced n"
  by (simp_all add: unforced_def)

lemma frame_upd [simp]:
  "frame (n\<lparr>n_x := a\<rparr>) = frame n" "frame (n\<lparr>n_y := a\<rparr>) = frame n"
  "frame (n\<lparr>n_vx := a\<rparr>) = frame n" "frame (n\<lparr>n_vy := a\<rparr>) = frame n"
  "frame (n\<lparr>n_fx := a\<rparr>) = frame n" "frame (n\<lparr>n_fy := a\<rparr>) = frame n"
  by (simp_all add: frame_def)

lemma frame_unforced [simp]: "frame (unforced n) = frame n"
  by (simp add: unforced_def)

lemma unforced_fields:
  assumes "unforced a = unforced b"
  shows "n_x a = n_x b" "n_y a = n_y b" "n_vx a = n_vx b" "n_vy a = n_vy b"
    "n_fixed a = n_fixed b" "frame a = frame b"
proof -
  have "n_x (unforced a) = n_x (unforced b)" "n_y (unforced a) = n_y (unforced b)"
    "n_vx (unforced a) = n_vx (unforced b)" "n_vy (unforced a) = n_vy (unforced b)"
    "n_fixed (unforced a) = n_fixed (unforced b)" "frame (unforced a) = frame (unforced b)"
    using assms by simp_all
  then show "n_x a = n_x b" "n_y a = n_y b" "n_vx a = n_vx b" "n_vy a = n_vy b"
    "n_fixed a = n_fixed b" "frame a = frame b"
    by (simp_all add: unforced_def)
qed

lemma frame_fields:
  assumes "frame a = frame b"
  shows "n_id a = n_id b" "n_title a = n_title b" "n_color a = n_color b"
    "n_r a = n_r b" "n_degree a = n_degree b" "n_fixed a = n_fixed b" "n_tags a = n_tags b"
proof -
  have "n_id (frame a) = n_id (frame b)" "n_title (frame a) = n_title (frame b)"
    "n_color (frame a) = n_color (frame b)" "n_r (frame a) = n_r (frame b)"
    "n_degree (frame a) = n_degree (frame b)" "n_fixed (frame a) = n_fixed (frame b)"
    "n_tags (frame a) = n_tags (frame b)"
    using assms by simp_all
  then show "n_id a = n_id b" "n_title a = n_title b" "n_color a = n_color b"
    "n_r a = n_r b" "n_degree a = n_degree b" "n_fixed a = n_fixed b" "n_tags a = n_tags b"
    by (simp_all add: frame_def)
qed

lemma map_update_same:
  assumes "f v = f (ns ! i)"
  shows "map f (ns[i := v]) = map f ns"
proof (cases "i < length ns")
  case True
  then show ?thesis using assms by (simp add: map_update list_update_same_conv)
next
  case False
  then show ?thesis by (simp add: list_update_beyond)
qed

lemma map_eq_nth:
  assumes "map f xs = map f ys" "i < length xs"
  shows "f (xs ! i) = f (ys ! i)" "length ys = length xs"
proof -
  from assms(1) show l: "length ys = length xs" by (metis length_map)
  have "map f xs ! i = map f ys ! i" using assms(1) by simp
  then show "f (xs ! i) = f (ys ! i)" using assms(2) l by simp
qed

lemma unforced_repulse_pair: "map unforced (repulse_pair i j ns) = map unforced ns"
  unfolding repulse_pair_def Let_def
  by (simp add: map_update_same)

lemma unforced_fold_repulse: "map unforced (fold (repulse_pair i) js ns) = map unforced ns"
  by (induction js arbitrary: ns) (simp_all add: unforced_repulse_pair)

lemma unforced_repulsion: "map unforced (repulsion ns) = map unforced ns"
proof -
  have "map unforced (fold (\<lambda>i. fold (repulse_pair i) [Suc i..<n]) ks ns) = map unforced ns"
    for n ks
    by (induction ks arbitrary: ns) (simp_all add: unforced_fold_repulse)
  then show ?thesis by (simp add: repulsion_def Let_def)
qed

lemma unforced_reset: "map unforced (reset_forces ns) = map unforced ns"
  by (induction ns) (simp_all add: reset_forces_def)

lemma unforced_gravity: "map unforced (center_gravity cx cy ns) = map unforced ns"
  by (induction ns) (simp_all add: center_gravity_def)

lemma unforced_link_pair:
  "link_pair bd e ns = Inr ns' \<Longrightarrow> map unforced ns' = map unforced ns"
  unfolding link_pair_def Let_def
  by (auto simp: map_update_same split: if_splits)

lemma unforced_link_attraction:
  "link_attraction bd es ns = Inr ns' \<Longrightarrow> map unforced ns' = map unforced ns"
proof (induction es arbitrary: ns)
  case Nil
  then show ?case by simp
next
  case (Cons e es)
  then show ?case by (auto split: sum.splits dest: unforced_link_pair)
qed

lemma link_pair_ok:
  assumes "e_a e < length ns" "e_b e < length ns"
  shows "\<exists>ns'. link_pair bd e ns = Inr ns' \<and> length ns' = length ns"
  using assms by (simp add: link_pair_def Let_def)

lemma link_attraction_ok:
  assumes "edges_ok es ns"
  shows "\<exists>ns'. link_attraction bd es ns = Inr ns'"
  using assms
proof (induction es arbitrary: ns)
  case Nil
  then show ?case by simp
next
  case (Cons e es)
  from Cons.prems have v: "e_a e < length ns" "e_b e < length ns" and r: "edges_ok es ns"
    by (simp_all add: edges_ok_def)
  from link_pair_ok [OF v] obtain ns1 where
    s: "link_pair bd e ns = Inr ns1" and l: "length ns1 = length ns" by blast
  from r l have "edges_ok es ns1" by (simp add: edges_ok_def)
  from Cons.IH [OF this] show ?case by (simp add: s)
qed

lemma edges_ok_length: "length ns' = length ns \<Longrightarrow> edges_ok es ns' = edges_ok es ns"
  by (simp add: edges_ok_def)

lemma accumulate_unforced:
  assumes "accumulate_forces s = Inr ns"
  shows "map unforced ns = map unforced (nodes s)"
proof -
  from assms obtain ns2 where
    l: "link_attraction (max 80 (min 180 (min (eff_width s) (eff_height s) * 0.18))) (edges s)
          (repulsion (reset_forces (nodes s))) = Inr ns2"
    and ns: "ns = center_gravity (eff_width s / 2) (eff_height s / 2) ns2"
    by (auto simp: accumulate_forces_def Let_def split: sum.splits)
  from unforced_link_attraction [OF l] show ?thesis
    by (simp add: ns unforced_gravity unforced_repulsion unforced_reset)
qed

lemma accumulate_ok:
  assumes "edges_ok (edges s) (nodes s)"
  shows "\<exists>ns. accumulate_forces s = Inr ns"
proof -
  have "map unforced (repulsion (reset_forces (nodes s))) = map unforced (nodes s)"
    by (simp add: unforced_repulsion unforced_reset)
  then have "length (repulsion (reset_forces (nodes s))) = length (nodes s)"
    by (metis length_map)
  with assms have "edges_ok (edges s) (repulsion (reset_forces (nodes s)))"
    by (simp add: edges_ok_def)
  from link_attraction_ok [OF this]
  obtain ns2 where
    "link_attraction (max 80 (min 180 (min (eff_width s) (eff_height s) * 0.18))) (edges s)
          (repulsion (reset_forces (nodes s))) = Inr ns2"
    by blast
  then show ?thesis
    by (simp add: accumulate_forces_def Let_def)
qed

lemma frame_integrate: "frame (integrate d m w h n) = frame n"
  by (simp add: integrate_def Let_def)

lemma frame_map_integrate: "map frame (map (integrate d m w h) ns) = map frame ns"
  by (induction ns) (simp_all add: frame_integrate)

lemma map_unforced_frame:
  assumes "map unforced xs = map unforced ys"
  shows "map frame xs = map frame ys"
proof -
  have "map frame (map unforced xs) = map frame (map unforced ys)" using assms by simp
  then show ?thesis by (simp add: comp_def)
qed

lemma tick_Inr:
  assumes "tick b s = Inr s'"
  obtains "nodes s = []" "s' = s"
  | ns where "nodes s \<noteq> []" "accumulate_forces s = Inr ns"
      "s' = s\<lparr>nodes := map (integrate (damping_of b) 18 (eff_width s) (eff_height s)) ns\<rparr>"
  using assms by (auto simp: tick_def split: if_splits sum.splits)

lemma tick_frame:
  assumes "tick b s = Inr s'"
  shows "map frame (nodes s') = map frame (nodes s)"
  using assms
proof (cases rule: tick_Inr)
  case 1
  then show ?thesis by simp
next
  case (2 ns)
  have "map frame (nodes s') = map frame ns"
    unfolding 2(3) by (simp del: map_map add: frame_map_integrate)
  then show ?thesis using map_unforced_frame [OF accumulate_unforced [OF 2(2)]] by simp
qed

lemma tick_rest:
  assumes "tick b s = Inr s'"
  shows "edges s' = edges s" "width s' = width s" "height s' = height s"
    "nodeIndex s' = nodeIndex s" "hoverIndex s' = hoverIndex s"
    "dragIndex s' = dragIndex s" "running s' = running s" "tooltipShown s' = tooltipShown s"
    "eff_width s' = eff_width s" "eff_height s' = eff_height s"
  using assms by (cases rule: tick_Inr; simp add: eff_width_def eff_height_def)+

lemma tick_length:
  assumes "tick b s = Inr s'"
  shows "length (nodes s') = length (nodes s)"
  using tick_frame [OF assms] by (metis length_map)

lemma tick_ok:
  assumes "edges_ok (edges s) (nodes s)"
  shows "\<exists>s'. tick b s = Inr s'"
  using accumulate_ok [OF assms] by (auto simp: tick_def)

lemma tick_edges_ok:
  assumes "tick b s = Inr s'" "edges_ok (edges s) (nodes s)"
  shows "edges_ok (edges s') (nodes s')"
  using assms tick_length [OF assms(1)] tick_rest(1) [OF assms(1)]
  by (simp add: edges_ok_def)

lemma warmup_ok:
  assumes "edges_ok (edges s) (nodes s)"
  shows "\<exists>s'. warmup k s = Inr s' \<and> map frame (nodes s') = map frame (nodes s)
     \<and> edges s' = edges s \<and> width s' = width s \<and> height s' = height s
     \<and> nodeIndex s' = nodeIndex s \<and> hoverIndex s' = hoverIndex s
     \<and> dragIndex s' = dragIndex s \<and> running s' = running s
     \<and> tooltipShown s' = tooltipShown s"
  using assms
proof (induction k arbitrary: s)
  case 0
  then show ?case by simp
next
  case (Suc k)
  from tick_ok [OF Suc.prems] obtain s1 where t: "tick True s = Inr s1" by blast
  from Suc.IH [OF tick_edges_ok [OF t Suc.prems]] obtain s' where
    w: "warmup k s1 = Inr s'" and f: "map frame (nodes s') = map frame (nodes s1)"
    and r: "edges s' = edges s1" "width s' = width s1" "height s' = height s1"
      "nodeIndex s' = nodeIndex s1" "hoverIndex s' = hoverIndex s1"
      "dragIndex s' = dragIndex s1" "running s' = running s1"
      "tooltipShown s' = tooltipShown s1"
    by blast
  have "warmup (Suc k) s = Inr s'" by (simp add: t w)
  moreover have "map frame (nodes s') = map frame (nodes s)"
    using f tick_frame [OF t] by simp
  ultimately show ?case using r tick_rest [OF t] by simp
qed


subsection \<open>The index and the edges\<close>

lemma build_index_snoc: "build_index (ns @ [n]) = (build_index ns)(n_id n \<mapsto> length ns)"
  by (simp add: build_index_def)

lemma build_index_Some:
  "build_index ns k = Some i \<longleftrightarrow>
     i < length ns \<and> n_id (ns ! i) = k \<and> (\<forall>j. i < j \<and> j < length ns \<longrightarrow> n_id (ns ! j) \<noteq> k)"
proof (induction ns rule: rev_induct)
  case Nil
  then show ?case by (simp add: build_index_def)
next
  case (snoc n ns)
  show ?case
  proof (cases "n_id n = k")
    case True
    have "(i < Suc (length ns) \<and> n_id ((ns @ [n]) ! i) = k \<and>
        (\<forall>j. i < j \<and> j < Suc (length ns) \<longrightarrow> n_id ((ns @ [n]) ! j) \<noteq> k)) \<longleftrightarrow> i = length ns"
    proof
      assume a: "i < Suc (length ns) \<and> n_id ((ns @ [n]) ! i) = k \<and>
        (\<forall>j. i < j \<and> j < Suc (length ns) \<longrightarrow> n_id ((ns @ [n]) ! j) \<noteq> k)"
      show "i = length ns"
      proof (rule ccontr)
        assume "i \<noteq> length ns"
        with a have i: "i < length ns" by simp
        from a have "i < length ns \<and> length ns < Suc (length ns)
            \<longrightarrow> n_id ((ns @ [n]) ! length ns) \<noteq> k"
          by blast
        with i True show False by simp
      qed
    next
      assume "i = length ns"
      with True show "i < Suc (length ns) \<and> n_id ((ns @ [n]) ! i) = k \<and>
        (\<forall>j. i < j \<and> j < Suc (length ns) \<longrightarrow> n_id ((ns @ [n]) ! j) \<noteq> k)"
        by auto
    qed
    with True show ?thesis by (auto simp: build_index_snoc)
  next
    case False
    have "(i < Suc (length ns) \<and> n_id ((ns @ [n]) ! i) = k \<and>
        (\<forall>j. i < j \<and> j < Suc (length ns) \<longrightarrow> n_id ((ns @ [n]) ! j) \<noteq> k)) \<longleftrightarrow>
      (i < length ns \<and> n_id (ns ! i) = k \<and> (\<forall>j. i < j \<and> j < length ns \<longrightarrow> n_id (ns ! j) \<noteq> k))"
      (is "?L \<longleftrightarrow> ?R")
    proof
      assume l: ?L
      have i: "i < length ns"
      proof (rule ccontr)
        assume "\<not> i < length ns"
        with l have "i = length ns" by simp
        with l False show False by simp
      qed
      moreover from l i have "n_id (ns ! i) = k" by (simp add: nth_append)
      moreover have "\<forall>j. i < j \<and> j < length ns \<longrightarrow> n_id (ns ! j) \<noteq> k"
      proof (intro allI impI)
        fix j assume j: "i < j \<and> j < length ns"
        from l have "i < j \<and> j < Suc (length ns) \<longrightarrow> n_id ((ns @ [n]) ! j) \<noteq> k"
          by blast
        with j show "n_id (ns ! j) \<noteq> k" by (simp add: nth_append)
      qed
      ultimately show ?R by simp
    next
      assume r: ?R
      then have "n_id ((ns @ [n]) ! i) = k" by (simp add: nth_append)
      moreover have "\<forall>j. i < j \<and> j < Suc (length ns) \<longrightarrow> n_id ((ns @ [n]) ! j) \<noteq> k"
      proof (intro allI impI)
        fix j assume j: "i < j \<and> j < Suc (length ns)"
        show "n_id ((ns @ [n]) ! j) \<noteq> k"
        proof (cases "j = length ns")
          case True
          with False show ?thesis by simp
        next
          case False
          with j have "j < length ns" by simp
          with r j show ?thesis by (simp add: nth_append)
        qed
      qed
      ultimately show ?L using r by simp
    qed
    with False snoc.IH show ?thesis by (simp add: build_index_snoc)
  qed
qed

lemma build_index_None: "build_index ns k = None \<longleftrightarrow> k \<notin> n_id ` set ns"
  by (induction ns rule: rev_induct) (auto simp: build_index_def)

lemma make_edge_Some:
  assumes "make_edge idx e = Some e'"
  shows "idx (re_source e) = Some (e_a e')" "idx (re_target e) = Some (e_b e')"
    "e_a e' \<noteq> e_b e'"
  using assms
  by (auto simp: make_edge_def Let_def split: option.splits if_splits)

lemma make_edge_None:
  "make_edge idx e = None \<longleftrightarrow>
     idx (re_source e) = None \<or> idx (re_target e) = None \<or> idx (re_source e) = idx (re_target e)"
  by (auto simp: make_edge_def Let_def split: option.splits if_splits)

lemma set_map_filter: "set (List.map_filter f xs) = {y. \<exists>x\<in>set xs. f x = Some y}"
  by (induction xs) (auto split: option.splits)

lemma build_edges_mem:
  assumes "e' \<in> set (build_edges (build_index ns) raw)"
  shows "e_a e' < length ns" "e_b e' < length ns" "e_a e' \<noteq> e_b e'"
proof -
  from assms obtain e where e: "make_edge (build_index ns) e = Some e'"
    by (auto simp: build_edges_def set_map_filter)
  from make_edge_Some [OF e] show "e_a e' < length ns" "e_b e' < length ns" "e_a e' \<noteq> e_b e'"
    by (simp_all add: build_index_Some)
qed

lemma build_edges_ok: "edges_ok (build_edges (build_index ns) raw) ns"
  by (simp add: edges_ok_def list_all_iff build_edges_mem)

subsection \<open>Degrees\<close>

lemma count_degrees_ok:
  assumes "edges_ok es ns"
  shows "\<exists>ns'. count_degrees es ns = Inr ns' \<and> length ns' = length ns \<and>
     (\<forall>i<length ns. ns' ! i = (ns ! i)\<lparr>n_degree := n_degree (ns ! i)
         + length (filter (\<lambda>e. e_a e = i) es) + length (filter (\<lambda>e. e_b e = i) es)\<rparr>)"
  using assms
proof (induction es arbitrary: ns)
  case Nil
  then show ?case by simp
next
  case (Cons e es)
  from Cons.prems have v: "e_a e < length ns" "e_b e < length ns" and r: "edges_ok es ns"
    by (simp_all add: edges_ok_def)
  define ns1 where "ns1 = ns[e_a e := (ns ! e_a e)\<lparr>n_degree := n_degree (ns ! e_a e) + 1\<rparr>]"
  define ns2 where "ns2 = ns1[e_b e := (ns1 ! e_b e)\<lparr>n_degree := n_degree (ns1 ! e_b e) + 1\<rparr>]"
  have b1: "bump_degree (e_a e) ns = Inr ns1" using v by (simp add: bump_degree_def ns1_def)
  have l1: "length ns1 = length ns" by (simp add: ns1_def)
  have b2: "bump_degree (e_b e) ns1 = Inr ns2" using v l1 by (simp add: bump_degree_def ns2_def)
  have l2: "length ns2 = length ns" by (simp add: ns2_def l1)
  from r l2 have "edges_ok es ns2" by (simp add: edges_ok_def)
  from Cons.IH [OF this] obtain ns' where
    c: "count_degrees es ns2 = Inr ns'" and l: "length ns' = length ns2"
    and d: "\<forall>i<length ns2. ns' ! i = (ns2 ! i)\<lparr>n_degree := n_degree (ns2 ! i)
         + length (filter (\<lambda>e. e_a e = i) es) + length (filter (\<lambda>e. e_b e = i) es)\<rparr>"
    by blast
  have "count_degrees (e # es) ns = Inr ns'" by (simp add: b1 b2 c)
  moreover have "length ns' = length ns" using l l2 by simp
  moreover have "\<forall>i<length ns. ns' ! i = (ns ! i)\<lparr>n_degree := n_degree (ns ! i)
         + length (filter (\<lambda>e. e_a e = i) (e # es)) + length (filter (\<lambda>e. e_b e = i) (e # es))\<rparr>"
  proof (intro allI impI)
    fix i assume i: "i < length ns"
    have n2: "ns2 ! i = (ns ! i)\<lparr>n_degree := n_degree (ns ! i)
        + (if e_a e = i then 1 else 0) + (if e_b e = i then 1 else 0)\<rparr>"
      using i v l1 by (simp add: ns2_def ns1_def nth_list_update)
    from d i l2 have "ns' ! i = (ns2 ! i)\<lparr>n_degree := n_degree (ns2 ! i)
         + length (filter (\<lambda>e. e_a e = i) es) + length (filter (\<lambda>e. e_b e = i) es)\<rparr>"
      by simp
    then show "ns' ! i = (ns ! i)\<lparr>n_degree := n_degree (ns ! i)
         + length (filter (\<lambda>e. e_a e = i) (e # es)) + length (filter (\<lambda>e. e_b e = i) (e # es))\<rparr>"
      by (simp add: n2)
  qed
  ultimately show ?case by blast
qed

lemma incident_count:
  assumes "\<forall>e\<in>set es. e_a e \<noteq> e_b e"
  shows "length (filter (\<lambda>e. e_a e = i) es) + length (filter (\<lambda>e. e_b e = i) es)
     = length (filter (\<lambda>e. e_a e = i \<or> e_b e = i) es)"
  using assms by (induction es) auto


subsection \<open>The built view\<close>

lemma make_node_Some:
  assumes "make_node cbn r = Some n"
  shows "n_x n = 0" "n_y n = 0" "n_vx n = 0" "n_vy n = 0" "n_fx n = 0" "n_fy n = 0"
    "n_fixed n = False" "n_degree n = 0" "n_id n = js_trim (rn_id r)" "n_id n \<noteq> []"
  using assms by (auto simp: make_node_def Let_def split: if_splits)

lemma build_nodes_mem:
  assumes "n \<in> set (build_nodes g)"
  shows "frame n = n" "n_fixed n = False" "n_degree n = 0" "n_id n \<noteq> []"
proof -
  from assms obtain r where "make_node (clusterByNode (g_clusters g)) r = Some n"
    by (auto simp: build_nodes_def set_map_filter)
  from make_node_Some [OF this]
  show "frame n = n" "n_fixed n = False" "n_degree n = 0" "n_id n \<noteq> []"
    by (simp_all add: frame_def)
qed

lemma setGraph_built:
  fixes s g rnd
  defines "ns0 \<equiv> build_nodes g"
  defines "es \<equiv> build_edges (build_index ns0) (g_edges g)"
  shows "\<exists>s'. setGraph s g rnd = Inr s' \<and> edges s' = es \<and> nodeIndex s' = build_index ns0
     \<and> length (nodes s') = length ns0
     \<and> (\<forall>i<length ns0. frame (nodes s' ! i) =
           (ns0 ! i)\<lparr>n_r := radius_of (incident es i), n_degree := incident es i\<rparr>)
     \<and> hoverIndex s' = - 1 \<and> dragIndex s' = - 1 \<and> running s'
     \<and> width s' = width s \<and> height s' = height s \<and> tooltipShown s' = tooltipShown s"
proof -
  define nsz where "nsz = map (\<lambda>n. n\<lparr>n_degree := 0\<rparr>) ns0"
  have ok: "edges_ok es nsz"
    using build_edges_ok [of ns0 "g_edges g"] by (simp add: es_def nsz_def edges_ok_def)
  from count_degrees_ok [OF ok] obtain ns1 where
    c: "count_degrees es nsz = Inr ns1" and l1: "length ns1 = length ns0"
    and d: "\<forall>i<length nsz. ns1 ! i = (nsz ! i)\<lparr>n_degree := n_degree (nsz ! i)
         + length (filter (\<lambda>e. e_a e = i) es) + length (filter (\<lambda>e. e_b e = i) es)\<rparr>"
    by (auto simp: nsz_def)
  have ne: "\<forall>e\<in>set es. e_a e \<noteq> e_b e"
    using build_edges_mem(3) [of _ ns0 "g_edges g"] by (simp add: es_def)
  have d1: "ns1 ! i = (ns0 ! i)\<lparr>n_degree := incident es i\<rparr>" if "i < length ns0" for i
  proof -
    from d that have "ns1 ! i = (nsz ! i)\<lparr>n_degree := n_degree (nsz ! i)
         + length (filter (\<lambda>e. e_a e = i) es) + length (filter (\<lambda>e. e_b e = i) es)\<rparr>"
      by (simp add: nsz_def)
    then show ?thesis
      using that incident_count [OF ne, of i] by (simp add: nsz_def incident_def)
  qed
  define w where "w = eff_width s"
  define h where "h = eff_height s"
  define ns2 where "ns2 = map set_radius ns1"
  define ns3 where "ns3 = map (\<lambda>(i, n). seed_position (w / 2) (h / 2) (max 120 (min w h * 0.32))
      (max 1 (length ns2)) rnd i n) (zip [0..<length ns2] ns2)"
  define s1 where "s1 = s\<lparr>nodes := ns3, edges := es, nodeIndex := build_index ns0,
      hoverIndex := - 1, dragIndex := - 1\<rparr>"
  have l3: "length ns3 = length ns0" by (simp add: ns3_def ns2_def l1)
  have f3: "frame (ns3 ! i) = (ns0 ! i)\<lparr>n_r := radius_of (incident es i), n_degree := incident es i\<rparr>"
    if "i < length ns0" for i
  proof -
    have m: "ns0 ! i \<in> set (build_nodes g)" using that by (simp add: ns0_def)
    have "ns3 ! i = seed_position (w / 2) (h / 2) (max 120 (min w h * 0.32))
      (max 1 (length ns2)) rnd i (set_radius (ns1 ! i))"
      using that l1 by (simp add: ns3_def ns2_def)
    then have "frame (ns3 ! i) = frame ((ns0 ! i)\<lparr>n_r := radius_of (incident es i),
        n_degree := incident es i, n_fixed := False\<rparr>)"
      using that by (simp add: d1 seed_position_def Let_def set_radius_def frame_def)
    also have "\<dots> = (frame (ns0 ! i))\<lparr>n_r := radius_of (incident es i),
        n_degree := incident es i, n_fixed := False\<rparr>"
      by (simp add: frame_def)
    also have "\<dots> = (ns0 ! i)\<lparr>n_r := radius_of (incident es i), n_degree := incident es i\<rparr>"
      using build_nodes_mem(1,2) [OF m] by simp
    finally show ?thesis .
  qed
  have ok1: "edges_ok (edges s1) (nodes s1)"
    using build_edges_ok [of ns0 "g_edges g"] l3 by (simp add: s1_def es_def edges_ok_def)
  from warmup_ok [OF ok1, of "min 420 (80 + length ns3 * 6)"] obtain s2 where
    wu: "warmup (min 420 (80 + length ns3 * 6)) s1 = Inr s2"
    and f: "map frame (nodes s2) = map frame (nodes s1)"
    and r: "edges s2 = edges s1" "width s2 = width s1" "height s2 = height s1"
      "nodeIndex s2 = nodeIndex s1" "hoverIndex s2 = hoverIndex s1"
      "dragIndex s2 = dragIndex s1" "running s2 = running s1"
      "tooltipShown s2 = tooltipShown s1"
    by blast
  have sg: "setGraph s g rnd = Inr (start s2)"
    unfolding setGraph_def Let_def using c wu
    by (simp add: ns0_def es_def nsz_def ns2_def w_def h_def ns3_def s1_def)
  have "length (nodes s2) = length (nodes s1)" using f by (metis length_map)
  then have ln: "length (nodes s2) = length ns0" using l3 by (simp add: s1_def)
  have fr: "frame (nodes (start s2) ! i) =
      (ns0 ! i)\<lparr>n_r := radius_of (incident es i), n_degree := incident es i\<rparr>"
    if "i < length ns0" for i
  proof -
    have "frame (nodes s2 ! i) = frame (nodes s1 ! i)"
      using map_eq_nth(1) [OF f, of i] that ln by simp
    then show ?thesis using f3 [OF that] by (simp add: start_def s1_def)
  qed
  show ?thesis
    apply (rule exI [of _ "start s2"])
    using sg r ln fr by (simp add: start_def s1_def)
qed


lemma setGraph_nodes:
  fixes s g rnd
  defines "ns0 \<equiv> build_nodes g"
  defines "es \<equiv> build_edges (build_index ns0) (g_edges g)"
  shows "\<exists>s'. setGraph s g rnd = Inr s' \<and> edges s' = es \<and> nodeIndex s' = build_index ns0
     \<and> length (nodes s') = length ns0
     \<and> map n_id (nodes s') = map n_id ns0
     \<and> map n_color (nodes s') = map n_color ns0
     \<and> map n_degree (nodes s') = map (incident es) [0..<length ns0]
     \<and> map n_r (nodes s') = map (\<lambda>i. radius_of (incident es i)) [0..<length ns0]
     \<and> map n_fixed (nodes s') = map (\<lambda>i. False) [0..<length ns0]
     \<and> hoverIndex s' = - 1 \<and> dragIndex s' = - 1 \<and> running s'
     \<and> width s' = width s \<and> height s' = height s \<and> tooltipShown s' = tooltipShown s"
proof -
  from setGraph_built [of s g rnd] obtain s' where
    sg: "setGraph s g rnd = Inr s'" and e: "edges s' = es" and x: "nodeIndex s' = build_index ns0"
    and l: "length (nodes s') = length ns0"
    and f: "\<forall>i<length ns0. frame (nodes s' ! i) =
           (ns0 ! i)\<lparr>n_r := radius_of (incident es i), n_degree := incident es i\<rparr>"
    and r: "hoverIndex s' = - 1" "dragIndex s' = - 1" "running s'"
      "width s' = width s" "height s' = height s" "tooltipShown s' = tooltipShown s"
    unfolding ns0_def es_def by blast
  have fi: "n_id (nodes s' ! i) = n_id (ns0 ! i)" "n_color (nodes s' ! i) = n_color (ns0 ! i)"
    "n_degree (nodes s' ! i) = incident es i" "n_r (nodes s' ! i) = radius_of (incident es i)"
    "n_fixed (nodes s' ! i) = False"
    if "i < length ns0" for i
  proof -
    have m: "ns0 ! i \<in> set (build_nodes g)" using that by (simp add: ns0_def)
    from f that have q: "frame (nodes s' ! i) =
        (ns0 ! i)\<lparr>n_r := radius_of (incident es i), n_degree := incident es i\<rparr>"
      by simp
    show "n_id (nodes s' ! i) = n_id (ns0 ! i)"
      using arg_cong [OF q, of n_id] by (simp add: frame_def)
    show "n_color (nodes s' ! i) = n_color (ns0 ! i)"
      using arg_cong [OF q, of n_color] by (simp add: frame_def)
    show "n_degree (nodes s' ! i) = incident es i"
      using arg_cong [OF q, of n_degree] by (simp add: frame_def)
    show "n_r (nodes s' ! i) = radius_of (incident es i)"
      using arg_cong [OF q, of n_r] by (simp add: frame_def)
    show "n_fixed (nodes s' ! i) = False"
      using arg_cong [OF q, of n_fixed] build_nodes_mem(2) [OF m] by (simp add: frame_def)
  qed
  have "map n_id (nodes s') = map n_id ns0" "map n_color (nodes s') = map n_color ns0"
    "map n_degree (nodes s') = map (incident es) [0..<length ns0]"
    "map n_r (nodes s') = map (\<lambda>i. radius_of (incident es i)) [0..<length ns0]"
    "map n_fixed (nodes s') = map (\<lambda>i. False) [0..<length ns0]"
    using l fi by (auto intro!: nth_equalityI)
  with sg e x l r show ?thesis by blast
qed

lemma radius_of_bounds: "10 \<le> radius_of d" "radius_of d \<le> 24"
  by (simp_all add: radius_of_def)

lemma radius_of_mono: "d \<le> d' \<Longrightarrow> radius_of d \<le> radius_of d'"
  by (simp add: radius_of_def max_def min_def)

subsection \<open>One tick and many\<close>

lemma tick_step:
  assumes "tick b s = Inr s'" "i < length (nodes s)"
  shows "\<exists>F. accumulate_forces s = Inr F \<and> length F = length (nodes s)
     \<and> unforced (F ! i) = unforced (nodes s ! i)
     \<and> nodes s' ! i = integrate (damping_of b) 18 (eff_width s) (eff_height s) (F ! i)"
  using assms(1)
proof (cases rule: tick_Inr)
  case 1
  with assms(2) show ?thesis by simp
next
  case (2 F)
  from accumulate_unforced [OF 2(2)] have u: "map unforced F = map unforced (nodes s)" .
  then have l: "length F = length (nodes s)" by (metis length_map)
  from map_eq_nth(1) [OF u, of i] assms(2) l
  have "unforced (F ! i) = unforced (nodes s ! i)" by simp
  with 2 l assms(2) show ?thesis by simp
qed

lemma integrate_fixed:
  assumes "n_fixed n"
  shows "n_x (integrate d m w h n) = n_x n" "n_y (integrate d m w h n) = n_y n"
    "n_vx (integrate d m w h n) = 0" "n_vy (integrate d m w h n) = 0"
  using assms by (simp_all add: integrate_def)

lemma integrate_free:
  assumes "\<not> n_fixed n"
  shows "n_vx (integrate d m w h n) = (n_vx n + n_fx n) * d"
    "n_vy (integrate d m w h n) = (n_vy n + n_fy n) * d"
    "n_x (integrate d m w h n) = max m (min (w - m) (n_x n + (n_vx n + n_fx n) * d))"
    "n_y (integrate d m w h n) = max m (min (h - m) (n_y n + (n_vy n + n_fy n) * d))"
  using assms by (simp_all add: integrate_def Let_def)

lemma tick_fixed_same:
  assumes "tick b s = Inr s'" "i < length (nodes s)"
  shows "n_fixed (nodes s' ! i) = n_fixed (nodes s ! i)"
  using map_eq_nth(1) [OF tick_frame [OF assms(1)], of i] assms(2) tick_length [OF assms(1)]
    frame_fields(6) [of "nodes s' ! i" "nodes s ! i"]
  by simp

lemma tick_free_box:
  assumes "tick b s = Inr s'" "i < length (nodes s)" "\<not> n_fixed (nodes s ! i)"
  shows "18 \<le> n_x (nodes s' ! i)" "18 \<le> n_y (nodes s' ! i)"
    "36 \<le> eff_width s \<Longrightarrow> n_x (nodes s' ! i) \<le> eff_width s - 18"
    "36 \<le> eff_height s \<Longrightarrow> n_y (nodes s' ! i) \<le> eff_height s - 18"
proof -
  from tick_step [OF assms(1,2)] obtain F where
    u: "unforced (F ! i) = unforced (nodes s ! i)"
    and n: "nodes s' ! i = integrate (damping_of b) 18 (eff_width s) (eff_height s) (F ! i)"
    by blast
  from unforced_fields(5) [OF u] assms(3) have nf: "\<not> n_fixed (F ! i)" by simp
  show "18 \<le> n_x (nodes s' ! i)" "18 \<le> n_y (nodes s' ! i)"
    unfolding n integrate_free [OF nf] by simp_all
  show "n_x (nodes s' ! i) \<le> eff_width s - 18" if "36 \<le> eff_width s"
    unfolding n integrate_free [OF nf] using that by simp
  show "n_y (nodes s' ! i) \<le> eff_height s - 18" if "36 \<le> eff_height s"
    unfolding n integrate_free [OF nf] using that by simp
qed

lemma tick_fixed_position:
  assumes "tick b s = Inr s'" "i < length (nodes s)" "n_fixed (nodes s ! i)"
  shows "n_x (nodes s' ! i) = n_x (nodes s ! i)" "n_y (nodes s' ! i) = n_y (nodes s ! i)"
    "n_vx (nodes s' ! i) = 0" "n_vy (nodes s' ! i) = 0"
proof -
  from tick_step [OF assms(1,2)] obtain F where
    u: "unforced (F ! i) = unforced (nodes s ! i)"
    and n: "nodes s' ! i = integrate (damping_of b) 18 (eff_width s) (eff_height s) (F ! i)"
    by blast
  from unforced_fields(5) [OF u] assms(3) have f: "n_fixed (F ! i)" by simp
  show "n_x (nodes s' ! i) = n_x (nodes s ! i)" "n_y (nodes s' ! i) = n_y (nodes s ! i)"
    "n_vx (nodes s' ! i) = 0" "n_vy (nodes s' ! i) = 0"
    unfolding n integrate_fixed [OF f] using unforced_fields(1,2) [OF u] by simp_all
qed

lemma ticks_run:
  assumes "edges_ok (edges s) (nodes s)"
  shows "\<exists>s'. ticks bs s = Inr s' \<and> length (nodes s') = length (nodes s)
     \<and> edges s' = edges s \<and> dragIndex s' = dragIndex s \<and> hoverIndex s' = hoverIndex s
     \<and> (\<forall>i<length (nodes s).
          n_fixed (nodes s' ! i) = n_fixed (nodes s ! i)
          \<and> (n_fixed (nodes s ! i) \<longrightarrow>
               n_x (nodes s' ! i) = n_x (nodes s ! i) \<and> n_y (nodes s' ! i) = n_y (nodes s ! i))
          \<and> (\<not> n_fixed (nodes s ! i) \<and> bs \<noteq> [] \<longrightarrow>
               18 \<le> n_x (nodes s' ! i) \<and> 18 \<le> n_y (nodes s' ! i)
               \<and> (36 \<le> eff_width s \<longrightarrow> n_x (nodes s' ! i) \<le> eff_width s - 18)
               \<and> (36 \<le> eff_height s \<longrightarrow> n_y (nodes s' ! i) \<le> eff_height s - 18)))"
  using assms
proof (induction bs arbitrary: s rule: rev_induct)
  case Nil
  then show ?case by simp
next
  case (snoc b bs)
  from snoc.IH [OF snoc.prems] obtain s1 where
    r: "ticks bs s = Inr s1" and l: "length (nodes s1) = length (nodes s)"
    and e: "edges s1 = edges s" "dragIndex s1 = dragIndex s" "hoverIndex s1 = hoverIndex s"
    and p: "\<forall>i<length (nodes s).
          n_fixed (nodes s1 ! i) = n_fixed (nodes s ! i)
          \<and> (n_fixed (nodes s ! i) \<longrightarrow>
               n_x (nodes s1 ! i) = n_x (nodes s ! i) \<and> n_y (nodes s1 ! i) = n_y (nodes s ! i))"
    by blast
  have w: "eff_width s1 = eff_width s \<and> eff_height s1 = eff_height s"
    using r
  proof (induction bs arbitrary: s)
    case Nil
    then show ?case by simp
  next
    case (Cons c cs)
    then show ?case by (auto split: sum.splits dest: tick_rest(9,10))
  qed
  have ok1: "edges_ok (edges s1) (nodes s1)"
    using snoc.prems l e by (simp add: edges_ok_def)
  from tick_ok [OF ok1] obtain s' where t: "tick b s1 = Inr s'" by blast
  have app: "ticks (xs @ [c]) z = (case ticks xs z of Inl err \<Rightarrow> Inl err | Inr z1 \<Rightarrow> tick c z1)"
    for xs c z
    by (induction xs arbitrary: z) (auto split: sum.splits)
  have run: "ticks (bs @ [b]) s = Inr s'" by (simp add: app r t)
  have q: "n_fixed (nodes s' ! i) = n_fixed (nodes s ! i)
          \<and> (n_fixed (nodes s ! i) \<longrightarrow>
               n_x (nodes s' ! i) = n_x (nodes s ! i) \<and> n_y (nodes s' ! i) = n_y (nodes s ! i))
          \<and> (\<not> n_fixed (nodes s ! i) \<and> bs @ [b] \<noteq> [] \<longrightarrow>
               18 \<le> n_x (nodes s' ! i) \<and> 18 \<le> n_y (nodes s' ! i)
               \<and> (36 \<le> eff_width s \<longrightarrow> n_x (nodes s' ! i) \<le> eff_width s - 18)
               \<and> (36 \<le> eff_height s \<longrightarrow> n_y (nodes s' ! i) \<le> eff_height s - 18))"
    if i: "i < length (nodes s)" for i
  proof -
    have i1: "i < length (nodes s1)" using i l by simp
    from p i have f1: "n_fixed (nodes s1 ! i) = n_fixed (nodes s ! i)"
      and x1: "n_fixed (nodes s ! i) \<longrightarrow>
               n_x (nodes s1 ! i) = n_x (nodes s ! i) \<and> n_y (nodes s1 ! i) = n_y (nodes s ! i)"
      by simp_all
    show ?thesis
    proof (cases "n_fixed (nodes s ! i)")
      case True
      with f1 have "n_fixed (nodes s1 ! i)" by simp
      from tick_fixed_position(1,2) [OF t i1 this] tick_fixed_same [OF t i1] f1 x1 True
      show ?thesis by simp
    next
      case False
      with f1 have nf: "\<not> n_fixed (nodes s1 ! i)" by simp
      from tick_free_box [OF t i1 nf] tick_fixed_same [OF t i1] f1 False w
      show ?thesis by simp
    qed
  qed
  have "length (nodes s') = length (nodes s)" using tick_length [OF t] l by simp
  with run q e tick_rest(1,5,6) [OF t] show ?case by simp
qed

subsection \<open>Clusters and colours\<close>

lemma add_cluster_apply:
  "add_cluster idx ids m k =
     (case m k of Some v \<Rightarrow> Some v | None \<Rightarrow> if k \<in> set ids then Some idx else None)"
  unfolding add_cluster_def
  by (induction ids arbitrary: m) (auto split: option.splits)

lemma clusterByNode_snoc:
  "clusterByNode (cl @ [ids]) = add_cluster (length cl) ids (clusterByNode cl)"
  by (simp add: clusterByNode_def)

lemma clusterByNode_None:
  "clusterByNode cl k = None \<longleftrightarrow> (\<forall>c<length cl. k \<notin> set (cl ! c))"
proof (induction cl rule: rev_induct)
  case Nil
  then show ?case by (simp add: clusterByNode_def)
next
  case (snoc ids cl)
  have "(\<forall>c<Suc (length cl). k \<notin> set ((cl @ [ids]) ! c))
      \<longleftrightarrow> (\<forall>c<length cl. k \<notin> set (cl ! c)) \<and> k \<notin> set ids"
    by (auto simp: less_Suc_eq nth_append)
  with snoc show ?case
    by (auto simp: clusterByNode_snoc add_cluster_apply split: option.splits)
qed

lemma clusterByNode_Some:
  "clusterByNode cl k = Some c \<longleftrightarrow>
     c < length cl \<and> k \<in> set (cl ! c) \<and> (\<forall>c'<c. k \<notin> set (cl ! c'))"
proof (induction cl arbitrary: c rule: rev_induct)
  case Nil
  then show ?case by (simp add: clusterByNode_def)
next
  case (snoc ids cl)
  show ?case
  proof (cases "clusterByNode cl k")
    case None
    then have no: "\<forall>c<length cl. k \<notin> set (cl ! c)" by (simp add: clusterByNode_None)
    have "(c < Suc (length cl) \<and> k \<in> set ((cl @ [ids]) ! c)
        \<and> (\<forall>c'<c. k \<notin> set ((cl @ [ids]) ! c'))) \<longleftrightarrow> (k \<in> set ids \<and> c = length cl)"
      (is "?L \<longleftrightarrow> ?R")
    proof
      assume l: ?L
      have "c = length cl"
      proof (rule ccontr)
        assume "c \<noteq> length cl"
        with l have "c < length cl" by simp
        with l no show False by (simp add: nth_append)
      qed
      with l show ?R by simp
    next
      assume ?R
      with no show ?L by (simp add: nth_append)
    qed
    with None show ?thesis
      by (auto simp: clusterByNode_snoc add_cluster_apply)
  next
    case (Some v)
    with snoc.IH [of v]
    have hv: "v < length cl" "k \<in> set (cl ! v)" "\<forall>c'<v. k \<notin> set (cl ! c')" by simp_all
    have "(c < Suc (length cl) \<and> k \<in> set ((cl @ [ids]) ! c)
        \<and> (\<forall>c'<c. k \<notin> set ((cl @ [ids]) ! c'))) \<longleftrightarrow> c = v"
      (is "?L \<longleftrightarrow> _")
    proof
      assume l: ?L
      show "c = v"
      proof (rule ccontr)
        assume "c \<noteq> v"
        then consider "c < v" | "v < c" by linarith
        then show False
        proof cases
          case 1
          with hv have "k \<notin> set (cl ! c)" "c < length cl" by simp_all
          with l show False by (simp add: nth_append)
        next
          case 2
          with l have "k \<notin> set ((cl @ [ids]) ! v)" by blast
          with hv show False by (simp add: nth_append)
        qed
      qed
    next
      assume "c = v"
      with hv show ?L by (simp add: nth_append)
    qed
    with Some show ?thesis
      by (auto simp: clusterByNode_snoc add_cluster_apply)
  qed
qed

lemma hash_snoc: "hash (t @ [c]) = hash t * 31 + ucast c"
  by (simp add: hash_def)

lemma build_nodes_color:
  assumes "n \<in> set (build_nodes g)"
  shows "n_color n =
     (case clusterByNode (g_clusters g) (n_id n) of
        Some c \<Rightarrow> colorForCluster c
      | None \<Rightarrow>
          colorForCluster (unat (hash (if js_join [124] (n_tags n) = [] then n_title n
                                       else js_join [124] (n_tags n)))))"
proof -
  from assms obtain r where "make_node (clusterByNode (g_clusters g)) r = Some n"
    by (auto simp: build_nodes_def set_map_filter)
  then show ?thesis
    by (auto simp: make_node_def Let_def split: if_splits option.splits)
qed

lemma setGraph_identity:
  "\<exists>s'. setGraph s g rnd = Inr s' \<and> length (nodes s') = length (build_nodes g)
     \<and> (\<forall>i<length (build_nodes g).
           n_id (nodes s' ! i) = n_id (build_nodes g ! i)
           \<and> n_title (nodes s' ! i) = n_title (build_nodes g ! i)
           \<and> n_tags (nodes s' ! i) = n_tags (build_nodes g ! i)
           \<and> n_color (nodes s' ! i) = n_color (build_nodes g ! i))"
proof -
  from setGraph_built [of s g rnd] obtain s' where
    sg: "setGraph s g rnd = Inr s'"
    and l: "length (nodes s') = length (build_nodes g)"
    and f: "\<forall>i<length (build_nodes g). frame (nodes s' ! i) =
           (build_nodes g ! i)\<lparr>n_r := radius_of (incident
               (build_edges (build_index (build_nodes g)) (g_edges g)) i),
             n_degree := incident (build_edges (build_index (build_nodes g)) (g_edges g)) i\<rparr>"
    by blast
  have "n_id (nodes s' ! i) = n_id (build_nodes g ! i)
           \<and> n_title (nodes s' ! i) = n_title (build_nodes g ! i)
           \<and> n_tags (nodes s' ! i) = n_tags (build_nodes g ! i)
           \<and> n_color (nodes s' ! i) = n_color (build_nodes g ! i)"
    if "i < length (build_nodes g)" for i
  proof -
    from f that have q: "frame (nodes s' ! i) =
           (build_nodes g ! i)\<lparr>n_r := radius_of (incident
               (build_edges (build_index (build_nodes g)) (g_edges g)) i),
             n_degree := incident (build_edges (build_index (build_nodes g)) (g_edges g)) i\<rparr>"
      by simp
    show ?thesis
      using arg_cong [OF q, of n_id] arg_cong [OF q, of n_title] arg_cong [OF q, of n_tags]
        arg_cong [OF q, of n_color]
      by (simp add: frame_def)
  qed
  with sg l show ?thesis by blast
qed

subsection \<open>The repulsion loops\<close>

lemma repulse_vec_cong:
  assumes "unforced a = unforced a'" "unforced b = unforced b'"
  shows "repulse_vec a b = repulse_vec a' b'"
  using unforced_fields(1,2) [OF assms(1)] unforced_fields(1,2) [OF assms(2)]
  by (simp add: repulse_vec_def)

lemma repulse_pair_force:
  assumes "i < length cur" "j < length cur" "i \<noteq> j" "k < length cur"
  shows "n_fx (repulse_pair i j cur ! k) = n_fx (cur ! k)
      + (if k = i then - fst (repulse_vec (cur ! i) (cur ! j))
         else if k = j then fst (repulse_vec (cur ! i) (cur ! j)) else 0)"
    and "n_fy (repulse_pair i j cur ! k) = n_fy (cur ! k)
      + (if k = i then - snd (repulse_vec (cur ! i) (cur ! j))
         else if k = j then snd (repulse_vec (cur ! i) (cur ! j)) else 0)"
  using assms by (simp_all add: repulse_pair_def Let_def nth_list_update)

lemma repulse_row:
  assumes u: "map unforced cur0 = map unforced ns" and i: "i < length ns"
    and m: "Suc i \<le> m"
  shows "m \<le> length ns \<longrightarrow> (\<forall>k<length ns.
      n_fx (fold (repulse_pair i) [Suc i..<m] cur0 ! k) = n_fx (cur0 ! k)
        + (if k = i then - (\<Sum>j = Suc i..<m. fst (repulse_vec (ns ! i) (ns ! j)))
           else if i < k \<and> k < m then fst (repulse_vec (ns ! i) (ns ! k)) else 0)
      \<and> n_fy (fold (repulse_pair i) [Suc i..<m] cur0 ! k) = n_fy (cur0 ! k)
        + (if k = i then - (\<Sum>j = Suc i..<m. snd (repulse_vec (ns ! i) (ns ! j)))
           else if i < k \<and> k < m then snd (repulse_vec (ns ! i) (ns ! k)) else 0))"
  using m
proof (induction m rule: nat_induct_at_least)
  case base
  then show ?case by simp
next
  case (Suc m)
  show ?case
  proof (intro impI allI)
    fix k assume sm: "Suc m \<le> length ns" and k: "k < length ns"
    define cur where "cur = fold (repulse_pair i) [Suc i..<m] cur0"
    have uc: "map unforced cur = map unforced ns"
      unfolding cur_def by (simp add: unforced_fold_repulse u)
    then have lc: "length cur = length ns" by (metis length_map)
    have ml: "m < length ns" using sm by simp
    have un: "unforced (cur ! p) = unforced (ns ! p)" if "p < length ns" for p
      using map_eq_nth(1) [OF uc, of p] that lc by simp
    have v: "repulse_vec (cur ! i) (cur ! m) = repulse_vec (ns ! i) (ns ! m)"
      by (rule repulse_vec_cong) (simp_all add: un i ml)
    have im: "i \<noteq> m" using Suc.hyps by simp
    have f: "fold (repulse_pair i) [Suc i..<Suc m] cur0 = repulse_pair i m cur"
      using Suc.hyps by (simp add: cur_def)
    from Suc.IH sm k have
      ih: "n_fx (cur ! k) = n_fx (cur0 ! k)
        + (if k = i then - (\<Sum>j = Suc i..<m. fst (repulse_vec (ns ! i) (ns ! j)))
           else if i < k \<and> k < m then fst (repulse_vec (ns ! i) (ns ! k)) else 0)"
      "n_fy (cur ! k) = n_fy (cur0 ! k)
        + (if k = i then - (\<Sum>j = Suc i..<m. snd (repulse_vec (ns ! i) (ns ! j)))
           else if i < k \<and> k < m then snd (repulse_vec (ns ! i) (ns ! k)) else 0)"
      by (simp_all add: cur_def)
    have s: "(\<Sum>j = Suc i..<Suc m. g j) = (\<Sum>j = Suc i..<m. g j) + g m" for g :: "nat \<Rightarrow> real"
      using Suc.hyps by (simp add: sum.atLeastLessThan_Suc)
    show "n_fx (fold (repulse_pair i) [Suc i..<Suc m] cur0 ! k) = n_fx (cur0 ! k)
        + (if k = i then - (\<Sum>j = Suc i..<Suc m. fst (repulse_vec (ns ! i) (ns ! j)))
           else if i < k \<and> k < Suc m then fst (repulse_vec (ns ! i) (ns ! k)) else 0)
      \<and> n_fy (fold (repulse_pair i) [Suc i..<Suc m] cur0 ! k) = n_fy (cur0 ! k)
        + (if k = i then - (\<Sum>j = Suc i..<Suc m. snd (repulse_vec (ns ! i) (ns ! j)))
           else if i < k \<and> k < Suc m then snd (repulse_vec (ns ! i) (ns ! k)) else 0)"
      unfolding f
      using repulse_pair_force [of i cur m k] i ml k lc im Suc.hyps
      by (auto simp: v ih s less_Suc_eq)
  qed
qed

lemma repulse_rows:
  fixes ns :: "sim_node list"
  defines "n \<equiv> length ns"
  defines "row \<equiv> \<lambda>i. fold (repulse_pair i) [Suc i..<n]"
  shows "m \<le> n \<longrightarrow> (\<forall>k<n.
      n_fx (fold row [0..<m] ns ! k) = n_fx (ns ! k)
        + (\<Sum>i<min m k. fst (repulse_vec (ns ! i) (ns ! k)))
        - (if k < m then \<Sum>j = Suc k..<n. fst (repulse_vec (ns ! k) (ns ! j)) else 0)
      \<and> n_fy (fold row [0..<m] ns ! k) = n_fy (ns ! k)
        + (\<Sum>i<min m k. snd (repulse_vec (ns ! i) (ns ! k)))
        - (if k < m then \<Sum>j = Suc k..<n. snd (repulse_vec (ns ! k) (ns ! j)) else 0))"
proof (induction m)
  case 0
  then show ?case by simp
next
  case (Suc m)
  show ?case
  proof (intro impI allI)
    fix k assume sm: "Suc m \<le> n" and k: "k < n"
    define cur where "cur = fold row [0..<m] ns"
    have uc: "map unforced cur = map unforced ns"
    proof -
      have "map unforced (fold row ks xs) = map unforced xs" for ks xs
        by (induction ks arbitrary: xs) (simp_all add: row_def unforced_fold_repulse)
      then show ?thesis by (simp add: cur_def)
    qed
    have f: "fold row [0..<Suc m] ns = fold (repulse_pair m) [Suc m..<n] cur"
      by (simp add: cur_def row_def)
    have ml: "m < length ns" using sm by (simp add: n_def)
    from repulse_row [OF uc ml, of n] sm k have
      r: "n_fx (fold (repulse_pair m) [Suc m..<n] cur ! k) = n_fx (cur ! k)
        + (if k = m then - (\<Sum>j = Suc m..<n. fst (repulse_vec (ns ! m) (ns ! j)))
           else if m < k \<and> k < n then fst (repulse_vec (ns ! m) (ns ! k)) else 0)"
      "n_fy (fold (repulse_pair m) [Suc m..<n] cur ! k) = n_fy (cur ! k)
        + (if k = m then - (\<Sum>j = Suc m..<n. snd (repulse_vec (ns ! m) (ns ! j)))
           else if m < k \<and> k < n then snd (repulse_vec (ns ! m) (ns ! k)) else 0)"
      by (simp_all add: n_def)
    from Suc.IH sm k have
      ih: "n_fx (cur ! k) = n_fx (ns ! k)
        + (\<Sum>i<min m k. fst (repulse_vec (ns ! i) (ns ! k)))
        - (if k < m then \<Sum>j = Suc k..<n. fst (repulse_vec (ns ! k) (ns ! j)) else 0)"
      "n_fy (cur ! k) = n_fy (ns ! k)
        + (\<Sum>i<min m k. snd (repulse_vec (ns ! i) (ns ! k)))
        - (if k < m then \<Sum>j = Suc k..<n. snd (repulse_vec (ns ! k) (ns ! j)) else 0)"
      by (simp_all add: cur_def)
    consider "k < m" | "k = m" | "m < k" by linarith
    then show "n_fx (fold row [0..<Suc m] ns ! k) = n_fx (ns ! k)
        + (\<Sum>i<min (Suc m) k. fst (repulse_vec (ns ! i) (ns ! k)))
        - (if k < Suc m then \<Sum>j = Suc k..<n. fst (repulse_vec (ns ! k) (ns ! j)) else 0)
      \<and> n_fy (fold row [0..<Suc m] ns ! k) = n_fy (ns ! k)
        + (\<Sum>i<min (Suc m) k. snd (repulse_vec (ns ! i) (ns ! k)))
        - (if k < Suc m then \<Sum>j = Suc k..<n. snd (repulse_vec (ns ! k) (ns ! j)) else 0)"
    proof cases
      case 1
      then have "min (Suc m) k = k" "min m k = k" by simp_all
      with 1 show ?thesis unfolding f r ih by simp
    next
      case 2
      then have "min (Suc m) k = k" "min m k = k" by simp_all
      with 2 show ?thesis unfolding f r ih by simp
    next
      case 3
      then have "min (Suc m) k = Suc m" "min m k = m" by simp_all
      with 3 k show ?thesis unfolding f r ih by simp
    qed
  qed
qed

lemma repulse_vec_eq:
  fixes a b :: sim_node
  defines "dx \<equiv> n_x b - n_x a"
  defines "dy \<equiv> n_y b - n_y a"
  defines "dist2 \<equiv> dx * dx + dy * dy + 0.01"
  shows "repulse_vec a b = (dx * (1 / sqrt dist2) * (5600 / dist2), dy * (1 / sqrt dist2) * (5600 / dist2))"
  by (simp add: repulse_vec_def Let_def dx_def dy_def dist2_def)

lemma repulse_vec_flip:
  "fst (repulse_vec b a) = - fst (repulse_vec a b)" "snd (repulse_vec b a) = - snd (repulse_vec a b)"
proof -
  define D where "D = (n_x b - n_x a) * (n_x b - n_x a) + (n_y b - n_y a) * (n_y b - n_y a) + 0.01"
  have e: "(n_x a - n_x b) * (n_x a - n_x b) + (n_y a - n_y b) * (n_y a - n_y b) + 0.01 = D"
    by (simp add: D_def algebra_simps)
  have ab: "repulse_vec a b
      = ((n_x b - n_x a) * (1 / sqrt D) * (5600 / D), (n_y b - n_y a) * (1 / sqrt D) * (5600 / D))"
    unfolding repulse_vec_eq D_def ..
  have ba: "repulse_vec b a
      = ((n_x a - n_x b) * (1 / sqrt D) * (5600 / D), (n_y a - n_y b) * (1 / sqrt D) * (5600 / D))"
    unfolding repulse_vec_eq e ..
  have m: "(p - q) * c * d = - ((q - p) * c * d)" for p q c d :: real
    by (simp add: algebra_simps)
  show "fst (repulse_vec b a) = - fst (repulse_vec a b)"
    "snd (repulse_vec b a) = - snd (repulse_vec a b)"
    unfolding ab ba fst_conv snd_conv by (rule m)+
qed

lemma repulsion_force:
  assumes "k < length ns"
  shows "n_fx (repulsion ns ! k) = n_fx (ns ! k)
        + (\<Sum>j\<in>{..<length ns} - {k}. fst (repulse_vec (ns ! j) (ns ! k)))"
    and "n_fy (repulsion ns ! k) = n_fy (ns ! k)
        + (\<Sum>j\<in>{..<length ns} - {k}. snd (repulse_vec (ns ! j) (ns ! k)))"
proof -
  define n where "n = length ns"
  have split: "{..<n} - {k} = {..<k} \<union> {Suc k..<n}" using assms by (auto simp: n_def)
  have dj: "{..<k} \<inter> {Suc k..<n} = {}" by auto
  have su: "(\<Sum>j\<in>{..<n} - {k}. g j) = (\<Sum>j<k. g j) + (\<Sum>j = Suc k..<n. g j)"
    for g :: "nat \<Rightarrow> real"
    unfolding split by (rule sum.union_disjoint) (simp_all add: dj)
  from repulse_rows [of "length ns" ns] assms have
    "n_fx (repulsion ns ! k) = n_fx (ns ! k)
        + (\<Sum>i<k. fst (repulse_vec (ns ! i) (ns ! k)))
        - (\<Sum>j = Suc k..<n. fst (repulse_vec (ns ! k) (ns ! j)))"
    "n_fy (repulsion ns ! k) = n_fy (ns ! k)
        + (\<Sum>i<k. snd (repulse_vec (ns ! i) (ns ! k)))
        - (\<Sum>j = Suc k..<n. snd (repulse_vec (ns ! k) (ns ! j)))"
    by (simp_all add: repulsion_def Let_def n_def)
  moreover have "(\<Sum>j = Suc k..<n. fst (repulse_vec (ns ! k) (ns ! j)))
      = - (\<Sum>j = Suc k..<n. fst (repulse_vec (ns ! j) (ns ! k)))"
    "(\<Sum>j = Suc k..<n. snd (repulse_vec (ns ! k) (ns ! j)))
      = - (\<Sum>j = Suc k..<n. snd (repulse_vec (ns ! j) (ns ! k)))"
    by (simp_all add: repulse_vec_flip [of "ns ! k"] sum_negf)
  ultimately show "n_fx (repulsion ns ! k) = n_fx (ns ! k)
        + (\<Sum>j\<in>{..<length ns} - {k}. fst (repulse_vec (ns ! j) (ns ! k)))"
    and "n_fy (repulsion ns ! k) = n_fy (ns ! k)
        + (\<Sum>j\<in>{..<length ns} - {k}. snd (repulse_vec (ns ! j) (ns ! k)))"
    unfolding n_def [symmetric] su by simp_all
qed

subsection \<open>Further facts on the builder, the ticks and the drawing\<close>

lemma build_nodes_ids:
  "map n_id (build_nodes g) = filter (\<lambda>k. k \<noteq> []) (map (\<lambda>r. js_trim (rn_id r)) (g_nodes g))"
proof -
  have "map n_id (List.map_filter (make_node cbn) rs)
      = filter (\<lambda>k. k \<noteq> []) (map (\<lambda>r. js_trim (rn_id r)) rs)" for cbn rs
    by (induction rs) (simp_all add: make_node_def Let_def)
  then show ?thesis by (simp add: build_nodes_def)
qed

lemma ticks_empty: "nodes s = [] \<Longrightarrow> ticks bs s = Inr s"
  by (induction bs) (simp_all add: tick_def)

lemma draw_edges_ok:
  assumes "list_all (\<lambda>e. e_a e < length (nodes s) \<and> e_b e < length (nodes s)) es"
  shows "\<exists>sts. draw_edges s es = Inr sts \<and>
     map st_alpha sts = map (\<lambda>e. if edge_focus s e then 0.55 else 0.12) es"
  using assms
proof (induction es)
  case Nil
  then show ?case by simp
next
  case (Cons e es)
  then obtain sts where "draw_edges s es = Inr sts"
    "map st_alpha sts = map (\<lambda>e. if edge_focus s e then 0.55 else 0.12) es"
    by auto
  moreover from Cons.prems obtain st where "draw_edge s e = Inr st"
    "st_alpha st = (if edge_focus s e then 0.55 else 0.12)"
    by (simp add: draw_edge_def Let_def)
  ultimately show ?case by simp
qed

lemma repulse_vec_norm:
  fixes a b :: sim_node
  defines "dx \<equiv> n_x b - n_x a"
  defines "dy \<equiv> n_y b - n_y a"
  defines "dist2 \<equiv> dx * dx + dy * dy + 0.01"
  shows "0 < dist2"
    and "repulse_vec a b = (dx * (5600 / (dist2 * sqrt dist2)), dy * (5600 / (dist2 * sqrt dist2)))"
    and "sqrt ((fst (repulse_vec a b))\<^sup>2 + (snd (repulse_vec a b))\<^sup>2)
         = 5600 / dist2 * (sqrt (dx * dx + dy * dy) / sqrt dist2)"
    and "sqrt ((fst (repulse_vec a b))\<^sup>2 + (snd (repulse_vec a b))\<^sup>2) < 5600 / dist2"
proof -
  have nn: "0 \<le> dx * dx + dy * dy" by simp
  then show pos: "0 < dist2" by (simp add: dist2_def add_nonneg_pos)
  then have sp: "0 < sqrt dist2" by simp
  define c where "c = 5600 / (dist2 * sqrt dist2)"
  have cp: "0 < c" using pos sp by (simp add: c_def)
  show v: "repulse_vec a b = (dx * (5600 / (dist2 * sqrt dist2)), dy * (5600 / (dist2 * sqrt dist2)))"
    unfolding repulse_vec_eq dx_def [symmetric] dy_def [symmetric] dist2_def [symmetric]
    by simp
  have "(fst (repulse_vec a b))\<^sup>2 + (snd (repulse_vec a b))\<^sup>2 = c\<^sup>2 * (dx * dx + dy * dy)"
    unfolding v c_def [symmetric] by (simp add: power2_eq_square algebra_simps)
  then have "sqrt ((fst (repulse_vec a b))\<^sup>2 + (snd (repulse_vec a b))\<^sup>2)
      = c * sqrt (dx * dx + dy * dy)"
    using cp by (simp add: real_sqrt_mult)
  also have "\<dots> = 5600 / dist2 * (sqrt (dx * dx + dy * dy) / sqrt dist2)"
    by (simp add: c_def)
  finally show m: "sqrt ((fst (repulse_vec a b))\<^sup>2 + (snd (repulse_vec a b))\<^sup>2)
         = 5600 / dist2 * (sqrt (dx * dx + dy * dy) / sqrt dist2)" .
  have "sqrt (dx * dx + dy * dy) < sqrt dist2" by (simp add: dist2_def)
  then have "sqrt (dx * dx + dy * dy) / sqrt dist2 < 1" using sp by simp
  moreover have "0 < 5600 / dist2" using pos by simp
  ultimately have "5600 / dist2 * (sqrt (dx * dx + dy * dy) / sqrt dist2) < 5600 / dist2 * 1"
    by (rule mult_strict_left_mono)
  then show "sqrt ((fst (repulse_vec a b))\<^sup>2 + (snd (repulse_vec a b))\<^sup>2) < 5600 / dist2"
    unfolding m by simp
qed

subsection \<open>The example inputs\<close>

lemma example_doc_ids: "map n_id (build_nodes example_doc) = [[65], [65], [66], [68]]"
  by (simp add: example_doc_def build_nodes_def make_node_def js_trim_def is_space_def Let_def)

lemma example_doc_index:
  "build_index (build_nodes example_doc) = [[65] \<mapsto> 1, [66] \<mapsto> 2, [68] \<mapsto> 3]"
  by (rule ext) (simp add: example_doc_def build_nodes_def make_node_def js_trim_def is_space_def Let_def build_index_def)

lemma example_doc_edges:
  "map (\<lambda>e. (e_a e, e_b e))
     (build_edges (build_index (build_nodes example_doc)) (g_edges example_doc))
   = [(1, 2), (2, 1), (3, 2)]"
  unfolding example_doc_index
  by (simp add: example_doc_def build_edges_def make_edge_def Let_def)

lemma example_doc_incident:
  "map (incident (build_edges (build_index (build_nodes example_doc)) (g_edges example_doc)))
     [0..<4] = [0, 2, 3, 1]"
proof -
  have u: "[0..<4] = [0, 1, 2, 3]" by (simp add: upt_rec)
  have i: "incident es k = length (filter (\<lambda>p. fst p = k \<or> snd p = k) (map (\<lambda>e. (e_a e, e_b e)) es))"
    for es k
    by (simp add: incident_def filter_map comp_def)
  show ?thesis unfolding u i example_doc_edges by simp
qed

lemma margin_view_press:
  "mousedown margin_view 0 (8, 300) =
     margin_view\<lparr>dragIndex := 0,
       nodes := (nodes margin_view)[0 := (nodes margin_view ! 0)\<lparr>n_fixed := True, n_x := 8, n_y := 300\<rparr>],
       running := True\<rparr>"
  by (simp add: mousedown_def findNodeAt_def margin_view_def Let_def start_def)

lemma pressed_view_fields:
  "length (nodes pressed_view) = 2"
  "edges_ok (edges pressed_view) (nodes pressed_view)"
  "n_fixed (nodes pressed_view ! 0)"
  "n_x (nodes pressed_view ! 0) = 8"
  "\<not> n_fixed (nodes pressed_view ! 1)"
  "dragIndex pressed_view = 0"
  "eff_width pressed_view = 800"
  "eff_height pressed_view = 600"
  unfolding pressed_view_def margin_view_press
  by (simp_all add: margin_view_def edges_ok_def eff_width_def eff_height_def)

lemma tagged_doc_nodes:
  "map (\<lambda>n. (n_id n, n_title n, n_tags n, n_color n)) (build_nodes tagged_doc)
   = [([112], [65], [[]], ''#10b981''),
      ([113], [66], [[120], [121]], ''#047857''),
      ([114], [67], [], ''#10b981''),
      ([116], [69], [[], []], ''#065f46'')]"
  by (simp add: tagged_doc_def build_nodes_def make_node_def js_trim_def is_space_def Let_def
      clusterByNode_def add_cluster_def hash_def colorForCluster_def palette_def)

lemma tagged_doc_built:
  "\<exists>s'. setGraph s tagged_doc rnd = Inr s'
     \<and> map (\<lambda>n. (n_id n, n_title n, n_tags n, n_color n)) (nodes s')
       = [([112], [65], [[]], ''#10b981''),
          ([113], [66], [[120], [121]], ''#047857''),
          ([114], [67], [], ''#10b981''),
          ([116], [69], [[], []], ''#065f46'')]"
proof -
  from setGraph_identity [of s tagged_doc rnd] obtain s' where
    sg: "setGraph s tagged_doc rnd = Inr s'"
    and l: "length (nodes s') = length (build_nodes tagged_doc)"
    and f: "\<forall>i<length (build_nodes tagged_doc).
           n_id (nodes s' ! i) = n_id (build_nodes tagged_doc ! i)
           \<and> n_title (nodes s' ! i) = n_title (build_nodes tagged_doc ! i)
           \<and> n_tags (nodes s' ! i) = n_tags (build_nodes tagged_doc ! i)
           \<and> n_color (nodes s' ! i) = n_color (build_nodes tagged_doc ! i)"
    by blast
  have "map (\<lambda>n. (n_id n, n_title n, n_tags n, n_color n)) (nodes s')
      = map (\<lambda>n. (n_id n, n_title n, n_tags n, n_color n)) (build_nodes tagged_doc)"
    using l f by (auto intro!: nth_equalityI)
  then have "map (\<lambda>n. (n_id n, n_title n, n_tags n, n_color n)) (nodes s')
       = [([112], [65], [[]], ''#10b981''),
          ([113], [66], [[120], [121]], ''#047857''),
          ([114], [67], [], ''#10b981''),
          ([116], [69], [[], []], ''#065f46'')]"
    unfolding tagged_doc_nodes .
  with sg show ?thesis by (intro exI [of _ s'] conjI)
qed

section \<open>The claims\<close>

subsection \<open>Containment\<close>

text \<open>
  C1, as the code has it: on a view whose edges index nodes, any run of one or more ticks
  returns, and afterwards every node whose \<open>fixed\<close> flag is false has both coordinates at
  least 18, its \<open>x\<close> at most \<open>width - 18\<close> when the width is at least 36 and its \<open>y\<close> at most
  \<open>height - 18\<close> when the height is at least 36. A node whose \<open>fixed\<close> flag is true is
  skipped by the clamp: it keeps the position the pointer gave it.
\<close>

theorem ticks_containment:
  assumes "edges_ok (edges s) (nodes s)" "bs \<noteq> []"
  shows "\<exists>s'. ticks bs s = Inr s' \<and> length (nodes s') = length (nodes s)
     \<and> (\<forall>i<length (nodes s).
          (\<not> n_fixed (nodes s ! i) \<longrightarrow>
               18 \<le> n_x (nodes s' ! i) \<and> 18 \<le> n_y (nodes s' ! i)
               \<and> (36 \<le> eff_width s \<longrightarrow> n_x (nodes s' ! i) \<le> eff_width s - 18)
               \<and> (36 \<le> eff_height s \<longrightarrow> n_y (nodes s' ! i) \<le> eff_height s - 18))
          \<and> (n_fixed (nodes s ! i) \<longrightarrow>
               n_x (nodes s' ! i) = n_x (nodes s ! i) \<and> n_y (nodes s' ! i) = n_y (nodes s ! i)))"
proof -
  from ticks_run [OF assms(1), of bs] obtain s' where
    r: "ticks bs s = Inr s'" "length (nodes s') = length (nodes s)"
    and p: "\<forall>i<length (nodes s).
          n_fixed (nodes s' ! i) = n_fixed (nodes s ! i)
          \<and> (n_fixed (nodes s ! i) \<longrightarrow>
               n_x (nodes s' ! i) = n_x (nodes s ! i) \<and> n_y (nodes s' ! i) = n_y (nodes s ! i))
          \<and> (\<not> n_fixed (nodes s ! i) \<and> bs \<noteq> [] \<longrightarrow>
               18 \<le> n_x (nodes s' ! i) \<and> 18 \<le> n_y (nodes s' ! i)
               \<and> (36 \<le> eff_width s \<longrightarrow> n_x (nodes s' ! i) \<le> eff_width s - 18)
               \<and> (36 \<le> eff_height s \<longrightarrow> n_y (nodes s' ! i) \<le> eff_height s - 18))"
    by blast
  from p assms(2) have "\<forall>i<length (nodes s).
          (\<not> n_fixed (nodes s ! i) \<longrightarrow>
               18 \<le> n_x (nodes s' ! i) \<and> 18 \<le> n_y (nodes s' ! i)
               \<and> (36 \<le> eff_width s \<longrightarrow> n_x (nodes s' ! i) \<le> eff_width s - 18)
               \<and> (36 \<le> eff_height s \<longrightarrow> n_y (nodes s' ! i) \<le> eff_height s - 18))
          \<and> (n_fixed (nodes s ! i) \<longrightarrow>
               n_x (nodes s' ! i) = n_x (nodes s ! i) \<and> n_y (nodes s' ! i) = n_y (nodes s ! i))"
    by simp
  with r show ?thesis by blast
qed

theorem ticks_containment_witness:
  "edges_ok (edges margin_view) (nodes margin_view) \<and> [True, False] \<noteq> []
   \<and> \<not> n_fixed (nodes margin_view ! 0) \<and> 36 \<le> eff_width margin_view
   \<and> 36 \<le> eff_height margin_view
   \<and> (\<exists>s'. ticks [True, False] margin_view = Inr s'
        \<and> 18 \<le> n_x (nodes s' ! 0) \<and> n_x (nodes s' ! 0) \<le> 782
        \<and> 18 \<le> n_y (nodes s' ! 0) \<and> n_y (nodes s' ! 0) \<le> 582)"
proof -
  have h: "edges_ok (edges margin_view) (nodes margin_view)"
    by (simp add: edges_ok_def margin_view_def)
  have n: "[True, False] \<noteq> []" by simp
  have f: "length (nodes margin_view) = 2" "\<not> n_fixed (nodes margin_view ! 0)"
    "eff_width margin_view = 800" "eff_height margin_view = 600"
    by (simp_all add: margin_view_def eff_width_def eff_height_def)
  from ticks_containment [OF h n] obtain s' where
    r: "ticks [True, False] margin_view = Inr s'"
    and p: "\<forall>i<length (nodes margin_view).
          (\<not> n_fixed (nodes margin_view ! i) \<longrightarrow>
               18 \<le> n_x (nodes s' ! i) \<and> 18 \<le> n_y (nodes s' ! i)
               \<and> (36 \<le> eff_width margin_view \<longrightarrow> n_x (nodes s' ! i) \<le> eff_width margin_view - 18)
               \<and> (36 \<le> eff_height margin_view \<longrightarrow> n_y (nodes s' ! i) \<le> eff_height margin_view - 18))
          \<and> (n_fixed (nodes margin_view ! i) \<longrightarrow>
               n_x (nodes s' ! i) = n_x (nodes margin_view ! i) \<and> n_y (nodes s' ! i) = n_y (nodes margin_view ! i))"
    by blast
  from p f have "18 \<le> n_x (nodes s' ! 0) \<and> n_x (nodes s' ! 0) \<le> 782
        \<and> 18 \<le> n_y (nodes s' ! 0) \<and> n_y (nodes s' ! 0) \<le> 582"
    by simp
  with h r f show ?thesis by simp
qed

text \<open>
  The claim as written fails while a node is dragged: a press at (8, 300) on the node at
  (20, 300) pins it at (8, 300), and after three animated ticks on the 800 by 600 surface
  its \<open>x\<close> is still 8, left of the margin at 18.
\<close>

theorem ticks_fixed_node_counterexample:
  "n_fixed (nodes pressed_view ! 0)
   \<and> eff_width pressed_view = 800
   \<and> \<not> isl (ticks [False, False, False] pressed_view)
   \<and> n_x (nodes (projr (ticks [False, False, False] pressed_view)) ! 0) = 8
   \<and> \<not> 18 \<le> n_x (nodes (projr (ticks [False, False, False] pressed_view)) ! 0)"
proof -
  from ticks_run [OF pressed_view_fields(2), of "[False, False, False]"]
  obtain s' where r: "ticks [False, False, False] pressed_view = Inr s'"
    and p: "\<forall>i<length (nodes pressed_view).
          n_fixed (nodes pressed_view ! i) \<longrightarrow> n_x (nodes s' ! i) = n_x (nodes pressed_view ! i)"
    by blast
  from p pressed_view_fields(1,3,4) have "n_x (nodes s' ! 0) = 8" by simp
  with pressed_view_fields(3,7) show ?thesis unfolding r by simp
qed

subsection \<open>Built edges\<close>

text \<open>
  C2: after \<open>setGraph\<close>, both endpoints of every built edge index a node and differ; the
  built edges are the raw edges that \<open>make_edge\<close> keeps, in order; and a raw edge is dropped
  exactly when its source or its target is no built node's id or the two are equal.
\<close>

theorem setGraph_edges_valid:
  "\<exists>s'. setGraph s g rnd = Inr s'
     \<and> (\<forall>e\<in>set (edges s').
           e_a e < length (nodes s') \<and> e_b e < length (nodes s') \<and> e_a e \<noteq> e_b e)
     \<and> edges s' = List.map_filter (make_edge (nodeIndex s')) (g_edges g)
     \<and> (\<forall>e. make_edge (nodeIndex s') e = None \<longleftrightarrow>
           re_source e \<notin> n_id ` set (nodes s') \<or> re_target e \<notin> n_id ` set (nodes s')
           \<or> re_source e = re_target e)"
proof -
  define ns0 where "ns0 = build_nodes g"
  from setGraph_nodes [of s g rnd] obtain s' where
    sg: "setGraph s g rnd = Inr s'"
    and e: "edges s' = build_edges (build_index ns0) (g_edges g)"
    and x: "nodeIndex s' = build_index ns0"
    and l: "length (nodes s') = length ns0"
    and i: "map n_id (nodes s') = map n_id ns0"
    unfolding ns0_def by blast
  have ids: "n_id ` set (nodes s') = n_id ` set ns0"
    using i by (metis set_map)
  have v: "\<forall>e\<in>set (edges s').
      e_a e < length (nodes s') \<and> e_b e < length (nodes s') \<and> e_a e \<noteq> e_b e"
    using build_edges_mem [of _ ns0 "g_edges g"] by (simp add: e l)
  have d: "make_edge (nodeIndex s') r = None \<longleftrightarrow>
      re_source r \<notin> n_id ` set (nodes s') \<or> re_target r \<notin> n_id ` set (nodes s')
      \<or> re_source r = re_target r" for r
  proof (cases "build_index ns0 (re_source r)")
    case None
    then show ?thesis by (simp add: make_edge_None x ids build_index_None [symmetric])
  next
    case sa: (Some a)
    show ?thesis
    proof (cases "build_index ns0 (re_target r)")
      case None
      then show ?thesis by (simp add: make_edge_None x ids build_index_None [symmetric])
    next
      case sb: (Some b)
      from sa sb have k: "n_id (ns0 ! a) = re_source r" "n_id (ns0 ! b) = re_target r"
        by (simp_all add: build_index_Some)
      have "a = b \<longleftrightarrow> re_source r = re_target r"
      proof
        assume "a = b"
        with k show "re_source r = re_target r" by simp
      next
        assume "re_source r = re_target r"
        with sa sb show "a = b" by simp
      qed
      with sa sb show ?thesis
        by (simp add: make_edge_None x ids build_index_None [symmetric])
    qed
  qed
  from sg v e x d show ?thesis by (auto simp: build_edges_def)
qed

theorem setGraph_edges_valid_witness:
  "\<exists>s'. setGraph (new_view None) example_doc (\<lambda>k. 1 / 2) = Inr s'
     \<and> map (\<lambda>e. (e_a e, e_b e)) (edges s') = [(1, 2), (2, 1), (3, 2)]
     \<and> length (nodes s') = 4
     \<and> (\<forall>e\<in>set (edges s').
           e_a e < length (nodes s') \<and> e_b e < length (nodes s') \<and> e_a e \<noteq> e_b e)
     \<and> [65] \<in> n_id ` set (nodes s') \<and> [67] \<notin> n_id ` set (nodes s')
     \<and> make_edge (nodeIndex s') (g_edges example_doc ! 2) = None
     \<and> make_edge (nodeIndex s') (g_edges example_doc ! 3) = None"
proof -
  from setGraph_edges_valid [of "new_view None" example_doc "\<lambda>k. 1 / 2"]
  obtain s' where sg: "setGraph (new_view None) example_doc (\<lambda>k. 1 / 2) = Inr s'"
    and v: "\<forall>e\<in>set (edges s').
           e_a e < length (nodes s') \<and> e_b e < length (nodes s') \<and> e_a e \<noteq> e_b e"
    and d: "\<forall>e. make_edge (nodeIndex s') e = None \<longleftrightarrow>
           re_source e \<notin> n_id ` set (nodes s') \<or> re_target e \<notin> n_id ` set (nodes s')
           \<or> re_source e = re_target e"
    by blast
  from setGraph_nodes [of "new_view None" example_doc "\<lambda>k. 1 / 2"] sg
  have e: "edges s' = build_edges (build_index (build_nodes example_doc)) (g_edges example_doc)"
    and l: "length (nodes s') = length (build_nodes example_doc)"
    and i: "map n_id (nodes s') = map n_id (build_nodes example_doc)"
    by auto
  have ids: "n_id ` set (nodes s') = {[65], [66], [68]}"
    using i unfolding example_doc_ids by (metis (no_types) list.set(1) list.set(2) set_map insert_absorb2)
  have l4: "length (nodes s') = 4"
    using arg_cong [OF i, of length] unfolding example_doc_ids by simp
  have m: "[65] \<in> n_id ` set (nodes s')" "[67] \<notin> n_id ` set (nodes s')"
    unfolding ids by simp_all
  have "make_edge (nodeIndex s') (g_edges example_doc ! 2) = None"
    "make_edge (nodeIndex s') (g_edges example_doc ! 3) = None"
    using d m by (simp_all add: example_doc_def)
  with sg v m l4 show ?thesis
    by (simp add: e example_doc_edges)
qed

subsection \<open>Integration\<close>

text \<open>
  C3: on a view whose edges index nodes, a tick returns, and with \<open>F\<close> the nodes after the
  force phases (their \<open>fx\<close>, \<open>fy\<close> the accumulated force) every node whose \<open>fixed\<close> flag is
  false gets the velocity \<open>(velocity + force) * damping\<close>, with damping 0.82 in a warm-up
  tick and 0.88 in a tick of the animated loop, and its position is its old position plus
  the new velocity, then clamped to the margin of 18; every node whose \<open>fixed\<close> flag is
  true gets velocity zero and keeps its position.
\<close>

theorem tick_integration:
  assumes "edges_ok (edges s) (nodes s)"
  shows "\<exists>s' F. tick isWarmup s = Inr s' \<and> accumulate_forces s = Inr F
     \<and> length F = length (nodes s) \<and> length (nodes s') = length (nodes s)
     \<and> (\<forall>i<length (nodes s).
          (\<not> n_fixed (nodes s ! i) \<longrightarrow>
             n_vx (nodes s' ! i)
               = (n_vx (nodes s ! i) + n_fx (F ! i)) * (if isWarmup then 0.82 else 0.88)
             \<and> n_vy (nodes s' ! i)
               = (n_vy (nodes s ! i) + n_fy (F ! i)) * (if isWarmup then 0.82 else 0.88)
             \<and> n_x (nodes s' ! i)
               = max 18 (min (eff_width s - 18) (n_x (nodes s ! i) + n_vx (nodes s' ! i)))
             \<and> n_y (nodes s' ! i)
               = max 18 (min (eff_height s - 18) (n_y (nodes s ! i) + n_vy (nodes s' ! i))))
          \<and> (n_fixed (nodes s ! i) \<longrightarrow>
             n_vx (nodes s' ! i) = 0 \<and> n_vy (nodes s' ! i) = 0
             \<and> n_x (nodes s' ! i) = n_x (nodes s ! i) \<and> n_y (nodes s' ! i) = n_y (nodes s ! i)))"
proof -
  from tick_ok [OF assms] obtain s' where t: "tick isWarmup s = Inr s'" by blast
  from accumulate_ok [OF assms] obtain F where a: "accumulate_forces s = Inr F" by blast
  from accumulate_unforced [OF a] have u: "map unforced F = map unforced (nodes s)" .
  then have lf: "length F = length (nodes s)" by (metis length_map)
  have q: "(\<not> n_fixed (nodes s ! i) \<longrightarrow>
             n_vx (nodes s' ! i)
               = (n_vx (nodes s ! i) + n_fx (F ! i)) * (if isWarmup then 0.82 else 0.88)
             \<and> n_vy (nodes s' ! i)
               = (n_vy (nodes s ! i) + n_fy (F ! i)) * (if isWarmup then 0.82 else 0.88)
             \<and> n_x (nodes s' ! i)
               = max 18 (min (eff_width s - 18) (n_x (nodes s ! i) + n_vx (nodes s' ! i)))
             \<and> n_y (nodes s' ! i)
               = max 18 (min (eff_height s - 18) (n_y (nodes s ! i) + n_vy (nodes s' ! i))))
          \<and> (n_fixed (nodes s ! i) \<longrightarrow>
             n_vx (nodes s' ! i) = 0 \<and> n_vy (nodes s' ! i) = 0
             \<and> n_x (nodes s' ! i) = n_x (nodes s ! i) \<and> n_y (nodes s' ! i) = n_y (nodes s ! i))"
    if i: "i < length (nodes s)" for i
  proof -
    from tick_step [OF t i] a have
      n: "nodes s' ! i = integrate (damping_of isWarmup) 18 (eff_width s) (eff_height s) (F ! i)"
      by auto
    from map_eq_nth(1) [OF u, of i] i lf have ui: "unforced (F ! i) = unforced (nodes s ! i)"
      by simp
    note k = unforced_fields(1-5) [OF ui]
    show ?thesis
    proof (cases "n_fixed (nodes s ! i)")
      case True
      with k have "n_fixed (F ! i)" by simp
      from integrate_fixed [OF this] True k show ?thesis by (simp add: n)
    next
      case False
      with k have "\<not> n_fixed (F ! i)" by simp
      from integrate_free [OF this] False k show ?thesis by (simp add: n damping_of_def)
    qed
  qed
  from t a lf tick_length [OF t] q show ?thesis by blast
qed

theorem tick_integration_witness:
  "edges_ok (edges pressed_view) (nodes pressed_view)
   \<and> n_fixed (nodes pressed_view ! 0) \<and> \<not> n_fixed (nodes pressed_view ! 1)
   \<and> (\<exists>s' F. tick True pressed_view = Inr s' \<and> accumulate_forces pressed_view = Inr F
        \<and> n_vx (nodes s' ! 0) = 0 \<and> n_x (nodes s' ! 0) = 8
        \<and> n_vx (nodes s' ! 1) = (n_vx (nodes pressed_view ! 1) + n_fx (F ! 1)) * 0.82
        \<and> n_x (nodes s' ! 1) = max 18 (min 782 (n_x (nodes pressed_view ! 1) + n_vx (nodes s' ! 1))))"
proof -
  note f = pressed_view_fields
  from tick_integration [OF f(2), of True] obtain s' F where
    t: "tick True pressed_view = Inr s'" "accumulate_forces pressed_view = Inr F"
    and q: "\<forall>i<length (nodes pressed_view).
          (\<not> n_fixed (nodes pressed_view ! i) \<longrightarrow>
             n_vx (nodes s' ! i)
               = (n_vx (nodes pressed_view ! i) + n_fx (F ! i)) * (if True then 0.82 else 0.88)
             \<and> n_vy (nodes s' ! i)
               = (n_vy (nodes pressed_view ! i) + n_fy (F ! i)) * (if True then 0.82 else 0.88)
             \<and> n_x (nodes s' ! i)
               = max 18 (min (eff_width pressed_view - 18) (n_x (nodes pressed_view ! i) + n_vx (nodes s' ! i)))
             \<and> n_y (nodes s' ! i)
               = max 18 (min (eff_height pressed_view - 18) (n_y (nodes pressed_view ! i) + n_vy (nodes s' ! i))))
          \<and> (n_fixed (nodes pressed_view ! i) \<longrightarrow>
             n_vx (nodes s' ! i) = 0 \<and> n_vy (nodes s' ! i) = 0
             \<and> n_x (nodes s' ! i) = n_x (nodes pressed_view ! i) \<and> n_y (nodes s' ! i) = n_y (nodes pressed_view ! i))"
    by blast
  from q f(1,3,4) have a: "n_vx (nodes s' ! 0) = 0 \<and> n_x (nodes s' ! 0) = 8" by simp
  from q f(1,5,7) have b:
    "n_vx (nodes s' ! 1) = (n_vx (nodes pressed_view ! 1) + n_fx (F ! 1)) * 0.82
     \<and> n_x (nodes s' ! 1) = max 18 (min 782 (n_x (nodes pressed_view ! 1) + n_vx (nodes s' ! 1)))"
    by simp
  from t a b f(2,3,5) show ?thesis by blast
qed

subsection \<open>Repulsion\<close>

text \<open>
  C4, as the code has it: the repulsion step changes nothing but the force accumulators,
  and adds to the accumulated force of every node, for every other node \<open>j\<close>, the vector
  \<open>repulse_vec (ns ! j) (ns ! k)\<close>. For a pair \<open>a\<close>, \<open>b\<close> with \<open>dx\<close>, \<open>dy\<close> the difference
  of their positions and \<open>dist2 = dx * dx + dy * dy + 0.01\<close>, the squared distance made
  positive by the added 0.01, that vector is \<open>(dx, dy) * 5600 / (dist2 * sqrt dist2)\<close>, it
  points from \<open>a\<close> to \<open>b\<close>, and the vector for the pair in the other order is its negation,
  so the two nodes receive opposite contributions of equal magnitude. The magnitude is
  \<open>5600 / dist2\<close> times \<open>sqrt (dx * dx + dy * dy) / sqrt dist2\<close>, always below
  \<open>5600 / dist2\<close>, and for two nodes at the same position the vector is zero.
\<close>

theorem repulsion_contributions:
  fixes ns :: "sim_node list" and a b :: sim_node
  defines "dx \<equiv> n_x b - n_x a"
  defines "dy \<equiv> n_y b - n_y a"
  defines "dist2 \<equiv> dx * dx + dy * dy + 0.01"
  shows "length (repulsion ns) = length ns
     \<and> (\<forall>k<length ns.
          n_fx (repulsion ns ! k) = n_fx (ns ! k)
            + (\<Sum>j\<in>{..<length ns} - {k}. fst (repulse_vec (ns ! j) (ns ! k)))
          \<and> n_fy (repulsion ns ! k) = n_fy (ns ! k)
            + (\<Sum>j\<in>{..<length ns} - {k}. snd (repulse_vec (ns ! j) (ns ! k)))
          \<and> unforced (repulsion ns ! k) = unforced (ns ! k))
     \<and> 0 < dist2
     \<and> repulse_vec a b = (dx * (5600 / (dist2 * sqrt dist2)), dy * (5600 / (dist2 * sqrt dist2)))
     \<and> repulse_vec b a = (- fst (repulse_vec a b), - snd (repulse_vec a b))
     \<and> sqrt ((fst (repulse_vec a b))\<^sup>2 + (snd (repulse_vec a b))\<^sup>2)
         = 5600 / dist2 * (sqrt (dx * dx + dy * dy) / sqrt dist2)
     \<and> sqrt ((fst (repulse_vec a b))\<^sup>2 + (snd (repulse_vec a b))\<^sup>2) < 5600 / dist2
     \<and> (n_x a = n_x b \<and> n_y a = n_y b \<longrightarrow> repulse_vec a b = (0, 0))"
proof -
  have u: "map unforced (repulsion ns) = map unforced ns" by (rule unforced_repulsion)
  then have l: "length (repulsion ns) = length ns" by (metis length_map)
  have f: "\<forall>k<length ns.
          n_fx (repulsion ns ! k) = n_fx (ns ! k)
            + (\<Sum>j\<in>{..<length ns} - {k}. fst (repulse_vec (ns ! j) (ns ! k)))
          \<and> n_fy (repulsion ns ! k) = n_fy (ns ! k)
            + (\<Sum>j\<in>{..<length ns} - {k}. snd (repulse_vec (ns ! j) (ns ! k)))
          \<and> unforced (repulsion ns ! k) = unforced (ns ! k)"
    using repulsion_force map_eq_nth(1) [OF u] l by simp
  have flip: "repulse_vec b a = (- fst (repulse_vec a b), - snd (repulse_vec a b))"
    using repulse_vec_flip [of b a] by (simp add: prod_eq_iff)
  have z: "n_x a = n_x b \<and> n_y a = n_y b \<longrightarrow> repulse_vec a b = (0, 0)"
    by (simp add: repulse_vec_def)
  note n = repulse_vec_norm [where a = a and b = b, folded dx_def dy_def, folded dist2_def]
  show ?thesis by (intro conjI l f n flip z)
qed

theorem repulsion_contributions_witness:
  "length (nodes margin_view) = 2
   \<and> n_fx (repulsion (nodes margin_view) ! 0)
       = fst (repulse_vec (nodes margin_view ! 1) (nodes margin_view ! 0))
   \<and> fst (repulse_vec (nodes margin_view ! 1) (nodes margin_view ! 0))
       = (- 280) * (5600 / (78400.01 * sqrt 78400.01))
   \<and> repulse_vec (nodes margin_view ! 0) (nodes margin_view ! 1)
       = (- fst (repulse_vec (nodes margin_view ! 1) (nodes margin_view ! 0)),
          - snd (repulse_vec (nodes margin_view ! 1) (nodes margin_view ! 0)))
   \<and> n_x (stacked_nodes ! 0) = n_x (stacked_nodes ! 1)
   \<and> n_y (stacked_nodes ! 0) = n_y (stacked_nodes ! 1)
   \<and> repulse_vec (stacked_nodes ! 0) (stacked_nodes ! 1) = (0, 0)"
proof -
  have l: "length (nodes margin_view) = 2" by (simp add: margin_view_def)
  have s: "{..<2::nat} - {0} = {1}" by auto
  have p: "n_x (nodes margin_view ! 0) - n_x (nodes margin_view ! 1) = - 280"
    "n_y (nodes margin_view ! 0) - n_y (nodes margin_view ! 1) = 0"
    "n_fx (nodes margin_view ! 0) = 0"
    by (simp_all add: margin_view_def)
  note t = repulsion_contributions
    [where ns = "nodes margin_view" and a = "nodes margin_view ! 1"
      and b = "nodes margin_view ! 0", unfolded l p]
  from t have "n_fx (repulsion (nodes margin_view) ! 0)
       = fst (repulse_vec (nodes margin_view ! 1) (nodes margin_view ! 0))"
    by (simp add: s p)
  moreover from t have "fst (repulse_vec (nodes margin_view ! 1) (nodes margin_view ! 0))
       = (- 280) * (5600 / (78400.01 * sqrt 78400.01))"
    by simp
  moreover from t have "repulse_vec (nodes margin_view ! 0) (nodes margin_view ! 1)
       = (- fst (repulse_vec (nodes margin_view ! 1) (nodes margin_view ! 0)),
          - snd (repulse_vec (nodes margin_view ! 1) (nodes margin_view ! 0)))"
    by simp
  moreover have q: "n_x (stacked_nodes ! 0) = n_x (stacked_nodes ! 1)"
    "n_y (stacked_nodes ! 0) = n_y (stacked_nodes ! 1)"
    by (simp_all add: stacked_nodes_def)
  moreover from repulsion_contributions
    [where ns = "[]" and a = "stacked_nodes ! 0" and b = "stacked_nodes ! 1"] q
  have "repulse_vec (stacked_nodes ! 0) (stacked_nodes ! 1) = (0, 0)" by simp
  ultimately show ?thesis using l by simp
qed

text \<open>
  The claim as written fails for two nodes at the same position: the regularized squared
  distance is 0.01, the claimed magnitude \<open>5600 / 0.01\<close> is 560000, and the repulsion step
  adds the zero vector to both nodes, so it does not push them apart.
\<close>

theorem repulsion_coincident_counterexample:
  "n_x (stacked_nodes ! 0) = n_x (stacked_nodes ! 1)
   \<and> n_y (stacked_nodes ! 0) = n_y (stacked_nodes ! 1)
   \<and> map (\<lambda>n. (n_fx n, n_fy n)) (repulsion (reset_forces stacked_nodes)) = [(0, 0), (0, 0)]
   \<and> (5600 :: real) / (0 * 0 + 0 * 0 + 0.01) = 560000"
  by (simp add: stacked_nodes_def reset_forces_def repulsion_def repulse_pair_def
      repulse_vec_def Let_def)

subsection \<open>Colours\<close>

text \<open>
  C5, as the code has it: \<open>setGraph\<close> returns for every view and every sequence of random
  draws, and two builds of the same document give every node the same colour. The colour
  is the palette entry, modulo the 8 entries, of the index of the first cluster that lists
  the node's id; for a node that no cluster lists it is the palette entry of the hash of
  its tags joined with \<open>|\<close> when that string is not empty, and of the hash of its title
  when it is empty, which is so without tags and also with the single tag \<open>""\<close>. The hash
  starts at 0 and takes \<open>h * 31 + code unit\<close> modulo \<open>2^32\<close> for each code unit.
\<close>

theorem setGraph_color_deterministic:
  "\<exists>s1 s2. setGraph sa g rnda = Inr s1 \<and> setGraph sb g rndb = Inr s2
     \<and> map n_color (nodes s1) = map n_color (nodes s2)
     \<and> (\<forall>i<length (nodes s1).
          (\<forall>c. c < length (g_clusters g) \<and> n_id (nodes s1 ! i) \<in> set (g_clusters g ! c)
                \<and> (\<forall>c'<c. n_id (nodes s1 ! i) \<notin> set (g_clusters g ! c'))
              \<longrightarrow> n_color (nodes s1 ! i) = palette ! (c mod 8))
          \<and> ((\<forall>c<length (g_clusters g). n_id (nodes s1 ! i) \<notin> set (g_clusters g ! c))
              \<longrightarrow> n_color (nodes s1 ! i) =
                    palette ! (unat (hash (if js_join [124] (n_tags (nodes s1 ! i)) = []
                                           then n_title (nodes s1 ! i)
                                           else js_join [124] (n_tags (nodes s1 ! i)))) mod 8)))
     \<and> hash [] = 0 \<and> (\<forall>t c. hash (t @ [c]) = hash t * 31 + ucast c)"
proof -
  define ns0 where "ns0 = build_nodes g"
  from setGraph_identity [of sa g rnda] obtain s1 where
    g1: "setGraph sa g rnda = Inr s1" and l1: "length (nodes s1) = length ns0"
    and f1: "\<forall>i<length ns0.
           n_id (nodes s1 ! i) = n_id (ns0 ! i)
           \<and> n_title (nodes s1 ! i) = n_title (ns0 ! i)
           \<and> n_tags (nodes s1 ! i) = n_tags (ns0 ! i)
           \<and> n_color (nodes s1 ! i) = n_color (ns0 ! i)"
    unfolding ns0_def by blast
  from setGraph_identity [of sb g rndb] obtain s2 where
    g2: "setGraph sb g rndb = Inr s2" and l2: "length (nodes s2) = length ns0"
    and f2: "\<forall>i<length ns0. n_color (nodes s2 ! i) = n_color (ns0 ! i)"
    unfolding ns0_def by blast
  have same: "map n_color (nodes s1) = map n_color (nodes s2)"
    using l1 l2 f1 f2 by (auto intro!: nth_equalityI)
  have col: "(\<forall>c. c < length (g_clusters g) \<and> n_id (nodes s1 ! i) \<in> set (g_clusters g ! c)
                \<and> (\<forall>c'<c. n_id (nodes s1 ! i) \<notin> set (g_clusters g ! c'))
              \<longrightarrow> n_color (nodes s1 ! i) = palette ! (c mod 8))
          \<and> ((\<forall>c<length (g_clusters g). n_id (nodes s1 ! i) \<notin> set (g_clusters g ! c))
              \<longrightarrow> n_color (nodes s1 ! i) =
                    palette ! (unat (hash (if js_join [124] (n_tags (nodes s1 ! i)) = []
                                           then n_title (nodes s1 ! i)
                                           else js_join [124] (n_tags (nodes s1 ! i)))) mod 8))"
    if i: "i < length (nodes s1)" for i
  proof -
    from i l1 have i0: "i < length ns0" by simp
    then have m: "ns0 ! i \<in> set (build_nodes g)" by (simp add: ns0_def)
    from f1 i0 have e: "n_id (nodes s1 ! i) = n_id (ns0 ! i)"
      "n_title (nodes s1 ! i) = n_title (ns0 ! i)" "n_tags (nodes s1 ! i) = n_tags (ns0 ! i)"
      "n_color (nodes s1 ! i) = n_color (ns0 ! i)"
      by simp_all
    note c = build_nodes_color [OF m]
    have a: "n_color (nodes s1 ! i) = palette ! (c mod 8)"
      if "c < length (g_clusters g) \<and> n_id (nodes s1 ! i) \<in> set (g_clusters g ! c)
                \<and> (\<forall>c'<c. n_id (nodes s1 ! i) \<notin> set (g_clusters g ! c'))" for c
    proof -
      from that have "clusterByNode (g_clusters g) (n_id (ns0 ! i)) = Some c"
        by (simp add: clusterByNode_Some e)
      with c show ?thesis by (simp add: e colorForCluster_def palette_def)
    qed
    have b: "n_color (nodes s1 ! i) =
                    palette ! (unat (hash (if js_join [124] (n_tags (nodes s1 ! i)) = []
                                           then n_title (nodes s1 ! i)
                                           else js_join [124] (n_tags (nodes s1 ! i)))) mod 8)"
      if "\<forall>c<length (g_clusters g). n_id (nodes s1 ! i) \<notin> set (g_clusters g ! c)"
    proof -
      from that have "clusterByNode (g_clusters g) (n_id (ns0 ! i)) = None"
        by (simp add: clusterByNode_None e)
      with c show ?thesis by (simp add: e colorForCluster_def palette_def)
    qed
    from a b show ?thesis by blast
  qed
  have "hash [] = 0" by (simp add: hash_def)
  with g1 g2 same col hash_snoc show ?thesis by blast
qed

theorem setGraph_color_deterministic_witness:
  "\<exists>s1 s2. setGraph (new_view None) tagged_doc (\<lambda>k. 1 / 2) = Inr s1
     \<and> setGraph (new_view (Some (1024, 768))) tagged_doc (\<lambda>k. 0) = Inr s2
     \<and> map n_color (nodes s1) = map n_color (nodes s2)
     \<and> map n_color (nodes s1) = [''#10b981'', ''#047857'', ''#10b981'', ''#065f46'']
     \<and> length (nodes s1) = 4
     \<and> n_id (nodes s1 ! 2) \<in> set (g_clusters tagged_doc ! 1)
     \<and> n_id (nodes s1 ! 2) \<notin> set (g_clusters tagged_doc ! 0)
     \<and> n_color (nodes s1 ! 2) = palette ! (1 mod 8)
     \<and> n_color (nodes s1 ! 1) = palette ! (unat (hash [120, 124, 121]) mod 8)"
proof -
  from setGraph_color_deterministic
    [of "new_view None" tagged_doc "\<lambda>k. 1 / 2" "new_view (Some (1024, 768))" "\<lambda>k. 0"]
  obtain s1 s2 where
    g1: "setGraph (new_view None) tagged_doc (\<lambda>k. 1 / 2) = Inr s1"
    and g2: "setGraph (new_view (Some (1024, 768))) tagged_doc (\<lambda>k. 0) = Inr s2"
    and same: "map n_color (nodes s1) = map n_color (nodes s2)"
    by blast
  from tagged_doc_built [of "new_view None" "\<lambda>k. 1 / 2"] g1
  have n: "map (\<lambda>n. (n_id n, n_title n, n_tags n, n_color n)) (nodes s1)
       = [([112], [65], [[]], ''#10b981''),
          ([113], [66], [[120], [121]], ''#047857''),
          ([114], [67], [], ''#10b981''),
          ([116], [69], [[], []], ''#065f46'')]"
    by auto
  have l: "length (nodes s1) = 4" using arg_cong [OF n, of length] by simp
  have c: "map n_color (nodes s1) = [''#10b981'', ''#047857'', ''#10b981'', ''#065f46'']"
    using arg_cong [OF n, of "map (\<lambda>p. snd (snd (snd p)))"] by (simp add: comp_def)
  have i: "n_id (nodes s1 ! 2) = [114]"
    using arg_cong [OF n, of "\<lambda>xs. fst (xs ! 2)"] l by simp
  have c2: "n_color (nodes s1 ! 2) = ''#10b981''" "n_color (nodes s1 ! 1) = ''#047857''"
    using arg_cong [OF c, of "\<lambda>xs. xs ! 2"] arg_cong [OF c, of "\<lambda>xs. xs ! 1"] l by simp_all
  have p: "palette ! (1 mod 8) = ''#10b981''"
    "palette ! (unat (hash [120, 124, 121]) mod 8) = ''#047857''"
    by (simp_all add: palette_def hash_def)
  have m: "n_id (nodes s1 ! 2) \<in> set (g_clusters tagged_doc ! 1)"
    "n_id (nodes s1 ! 2) \<notin> set (g_clusters tagged_doc ! 0)"
    by (simp_all add: i tagged_doc_def)
  have q: "n_color (nodes s1 ! 2) = palette ! (1 mod 8)"
    "n_color (nodes s1 ! 1) = palette ! (unat (hash [120, 124, 121]) mod 8)"
    unfolding p c2 by simp_all
  show ?thesis
    by (rule exI [of _ s1], rule exI [of _ s2]) (intro conjI g1 g2 same c l m q)
qed

text \<open>
  The claim as written fails for a node whose tag list is the single tag \<open>""\<close>: the node
  has a tag list, which joins to the empty string and hashes to 0, the first palette
  entry, and the code colours it from the hash of its title, the second entry. Reading
  "no tags" as "no tag but empty ones" does not save the claim: a node with the two tags
  \<open>""\<close> and \<open>""\<close> is coloured from the hash of \<open>"|"\<close>, the fifth entry, not from the hash
  of its title, the sixth.
\<close>

theorem color_empty_tag_counterexample:
  "n_tags (nodes (projr (setGraph (new_view None) tagged_doc (\<lambda>k. 1 / 2))) ! 0) = [[]]
   \<and> n_title (nodes (projr (setGraph (new_view None) tagged_doc (\<lambda>k. 1 / 2))) ! 0) = [65]
   \<and> clusterByNode (g_clusters tagged_doc) [112] = None
   \<and> n_color (nodes (projr (setGraph (new_view None) tagged_doc (\<lambda>k. 1 / 2))) ! 0) = ''#10b981''
   \<and> palette ! (unat (hash (js_join [124] [[]])) mod 8) = ''#059669''
   \<and> palette ! (unat (hash [65]) mod 8) = ''#10b981''
   \<and> n_tags (nodes (projr (setGraph (new_view None) tagged_doc (\<lambda>k. 1 / 2))) ! 3) = [[], []]
   \<and> n_title (nodes (projr (setGraph (new_view None) tagged_doc (\<lambda>k. 1 / 2))) ! 3) = [69]
   \<and> clusterByNode (g_clusters tagged_doc) [116] = None
   \<and> n_color (nodes (projr (setGraph (new_view None) tagged_doc (\<lambda>k. 1 / 2))) ! 3) = ''#065f46''
   \<and> palette ! (unat (hash (js_join [124] [[], []])) mod 8) = ''#065f46''
   \<and> palette ! (unat (hash [69]) mod 8) = ''#047857''"
proof -
  from tagged_doc_built [of "new_view None" "\<lambda>k. 1 / 2"] obtain s' where
    sg: "setGraph (new_view None) tagged_doc (\<lambda>k. 1 / 2) = Inr s'"
    and n: "map (\<lambda>n. (n_id n, n_title n, n_tags n, n_color n)) (nodes s')
       = [([112], [65], [[]], ''#10b981''),
          ([113], [66], [[120], [121]], ''#047857''),
          ([114], [67], [], ''#10b981''),
          ([116], [69], [[], []], ''#065f46'')]"
    by (elim exE conjE)
  have l: "length (nodes s') = 4" using arg_cong [OF n, of length] by simp
  have f: "n_tags (nodes s' ! 0) = [[]]" "n_title (nodes s' ! 0) = [65]"
    "n_color (nodes s' ! 0) = ''#10b981''"
    using arg_cong [OF n, of "\<lambda>xs. xs ! 0"] l by simp_all
  have g: "n_tags (nodes s' ! 3) = [[], []]" "n_title (nodes s' ! 3) = [69]"
    "n_color (nodes s' ! 3) = ''#065f46''"
    using arg_cong [OF n, of "\<lambda>xs. xs ! 3"] l by simp_all
  have c: "clusterByNode (g_clusters tagged_doc) [112] = None"
    "clusterByNode (g_clusters tagged_doc) [116] = None"
    by (simp_all add: tagged_doc_def clusterByNode_def add_cluster_def)
  have p: "palette ! (unat (hash (js_join [124] [[]])) mod 8) = ''#059669''"
    "palette ! (unat (hash [65]) mod 8) = ''#10b981''"
    "palette ! (unat (hash (js_join [124] [[], []])) mod 8) = ''#065f46''"
    "palette ! (unat (hash [69]) mod 8) = ''#047857''"
    by (simp_all add: palette_def hash_def)
  show ?thesis unfolding sg sum.sel by (intro conjI f g c p)
qed

subsection \<open>Edge opacity\<close>

text \<open>
  C6, as the code has it: on a view whose edges index nodes, the draw pass returns one
  stroke for each edge, in order. With a hovered node, the stroke of an edge has opacity
  0.55 exactly when the hovered node is one of its two endpoints, and 0.12 otherwise; an
  edge that only touches a neighbour of the hovered node is drawn at 0.12. With no
  hovered node every stroke has opacity 0.55.
\<close>

theorem draw_edge_opacity:
  assumes "edges_ok (edges s) (nodes s)"
  shows "\<exists>sts discs. draw s = Inr (sts, discs) \<and> length sts = length (edges s)
     \<and> (\<forall>k<length (edges s).
           st_alpha (sts ! k) =
             (if hoverIndex s < 0 then 0.55
              else if int (e_a (edges s ! k)) = hoverIndex s
                      \<or> int (e_b (edges s ! k)) = hoverIndex s then 0.55
              else 0.12))"
proof -
  from draw_edges_ok [of s "edges s"] assms obtain sts where
    d: "draw_edges s (edges s) = Inr sts"
    and a: "map st_alpha sts = map (\<lambda>e. if edge_focus s e then 0.55 else 0.12) (edges s)"
    by (auto simp: edges_ok_def)
  have l: "length sts = length (edges s)" using arg_cong [OF a, of length] by simp
  have "st_alpha (sts ! k) =
             (if hoverIndex s < 0 then 0.55
              else if int (e_a (edges s ! k)) = hoverIndex s
                      \<or> int (e_b (edges s ! k)) = hoverIndex s then 0.55
              else 0.12)" if "k < length (edges s)" for k
    using arg_cong [OF a, of "\<lambda>xs. xs ! k"] that l by (simp add: edge_focus_def)
  with d l show ?thesis by (simp add: draw_def)
qed

theorem draw_edge_opacity_witness:
  "edges_ok (edges path_view) (nodes path_view)
   \<and> (\<exists>sts discs. draw path_view = Inr (sts, discs) \<and> length sts = 2
        \<and> st_alpha (sts ! 0) = 0.55 \<and> st_alpha (sts ! 1) = 0.12)"
proof -
  have h: "edges_ok (edges path_view) (nodes path_view)"
    by (simp add: edges_ok_def path_view_def)
  from draw_edge_opacity [OF h] obtain sts discs where
    d: "draw path_view = Inr (sts, discs)" and l: "length sts = length (edges path_view)"
    and a: "\<forall>k<length (edges path_view).
           st_alpha (sts ! k) =
             (if hoverIndex path_view < 0 then 0.55
              else if int (e_a (edges path_view ! k)) = hoverIndex path_view
                      \<or> int (e_b (edges path_view ! k)) = hoverIndex path_view then 0.55
              else 0.12)"
    by blast
  have l2: "length (edges path_view) = 2" by (simp add: path_view_def)
  have "st_alpha (sts ! 0) = 0.55" using a l2 by (simp add: path_view_def)
  moreover have "st_alpha (sts ! 1) = 0.12"
  proof -
    from a l2 have "st_alpha (sts ! 1) =
             (if hoverIndex path_view < 0 then 0.55
              else if int (e_a (edges path_view ! 1)) = hoverIndex path_view
                      \<or> int (e_b (edges path_view ! 1)) = hoverIndex path_view then 0.55
              else 0.12)" by simp
    then show ?thesis by (simp add: path_view_def)
  qed
  ultimately show ?thesis using h d l l2 by auto
qed

text \<open>
  The claim as written fails on the path X-Y-Z with the pointer over X: Y is a neighbour
  of X, the edge Y-Z touches Y, and its stroke has opacity 0.12.
\<close>

theorem draw_neighbour_edge_counterexample:
  "hoverIndex path_view = 0 \<and> 1 \<in> adjacent path_view
   \<and> e_a (edges path_view ! 1) = 1
   \<and> map st_alpha (fst (projr (draw path_view))) = [0.55, 0.12]"
  by (simp add: path_view_def adjacent_def draw_def draw_edge_def edge_focus_def Let_def)

subsection \<open>Leaving during a drag\<close>

text \<open>
  C7 on the code: after a press on a node and the pointer leaving the surface,
  \<open>dragIndex\<close> is \<open>-1\<close> and the node still has \<open>fixed = true\<close>; a later release returns at
  its first line and changes nothing, and three ticks leave the node pinned where the
  press put it. A release without the leave clears the flag.
\<close>

theorem leave_during_drag_keeps_fixed:
  "dragIndex pressed_view = 0 \<and> n_fixed (nodes pressed_view ! 0)
   \<and> dragIndex (mouseleave pressed_view) = - 1
   \<and> n_fixed (nodes (mouseleave pressed_view) ! 0)
   \<and> mouseup (mouseleave pressed_view) = Inr (mouseleave pressed_view)
   \<and> \<not> isl (ticks [False, False, False] (mouseleave pressed_view))
   \<and> n_fixed (nodes (projr (ticks [False, False, False] (mouseleave pressed_view))) ! 0)
   \<and> n_x (nodes (projr (ticks [False, False, False] (mouseleave pressed_view))) ! 0) = 8
   \<and> \<not> n_fixed (nodes (projr (mouseup pressed_view)) ! 0)"
proof -
  have n: "nodes (mouseleave pressed_view) = nodes pressed_view"
    "edges (mouseleave pressed_view) = edges pressed_view"
    "dragIndex (mouseleave pressed_view) = - 1"
    by (simp_all add: mouseleave_def)
  have ok: "edges_ok (edges (mouseleave pressed_view)) (nodes (mouseleave pressed_view))"
    using pressed_view_fields(2) by (simp add: n)
  from ticks_run [OF ok, of "[False, False, False]"]
  obtain s' where r: "ticks [False, False, False] (mouseleave pressed_view) = Inr s'"
    and p: "\<forall>i<length (nodes pressed_view).
          n_fixed (nodes s' ! i) = n_fixed (nodes pressed_view ! i)
          \<and> (n_fixed (nodes pressed_view ! i) \<longrightarrow>
                n_x (nodes s' ! i) = n_x (nodes pressed_view ! i))"
    unfolding n by blast
  from p pressed_view_fields(1,3,4) have a: "n_fixed (nodes s' ! 0)" "n_x (nodes s' ! 0) = 8"
    by simp_all
  have u: "mouseup (mouseleave pressed_view) = Inr (mouseleave pressed_view)"
    by (simp add: mouseup_def n)
  have v: "\<not> n_fixed (nodes (projr (mouseup pressed_view)) ! 0)"
    using pressed_view_fields(1,6) by (simp add: mouseup_def start_def)
  from a u v pressed_view_fields(3,6) n show ?thesis unfolding r by simp
qed

subsection \<open>Degree and radius\<close>

text \<open>
  C8: after \<open>setGraph\<close>, the degree of every node is the number of built edges that have it
  as an endpoint, and its radius is \<open>10 + 1.2 * degree\<close> clamped to \<open>[10, 24]\<close>; so the
  radius lies in \<open>[10, 24]\<close> and a node of no smaller degree has no smaller radius.
\<close>

theorem setGraph_degree_radius:
  "\<exists>s'. setGraph s g rnd = Inr s'
     \<and> (\<forall>i<length (nodes s').
           n_degree (nodes s' ! i)
             = length (filter (\<lambda>e. e_a e = i \<or> e_b e = i) (edges s'))
           \<and> n_r (nodes s' ! i) = max 10 (min 24 (10 + real (n_degree (nodes s' ! i)) * 1.2))
           \<and> 10 \<le> n_r (nodes s' ! i) \<and> n_r (nodes s' ! i) \<le> 24)
     \<and> (\<forall>i<length (nodes s'). \<forall>j<length (nodes s').
           n_degree (nodes s' ! i) \<le> n_degree (nodes s' ! j)
           \<longrightarrow> n_r (nodes s' ! i) \<le> n_r (nodes s' ! j))"
proof -
  define ns0 where "ns0 = build_nodes g"
  from setGraph_nodes [of s g rnd] obtain s' where
    sg: "setGraph s g rnd = Inr s'"
    and l: "length (nodes s') = length ns0"
    and d: "map n_degree (nodes s') = map (incident (edges s')) [0..<length ns0]"
    and r: "map n_r (nodes s') = map (\<lambda>i. radius_of (incident (edges s') i)) [0..<length ns0]"
    unfolding ns0_def by auto
  have di: "n_degree (nodes s' ! i) = incident (edges s') i" if "i < length (nodes s')" for i
    using arg_cong [OF d, of "\<lambda>xs. xs ! i"] that l by simp
  have ri: "n_r (nodes s' ! i) = radius_of (n_degree (nodes s' ! i))"
    if "i < length (nodes s')" for i
    using arg_cong [OF r, of "\<lambda>xs. xs ! i"] that l di [OF that] by simp
  have a: "\<forall>i<length (nodes s').
           n_degree (nodes s' ! i)
             = length (filter (\<lambda>e. e_a e = i \<or> e_b e = i) (edges s'))
           \<and> n_r (nodes s' ! i) = max 10 (min 24 (10 + real (n_degree (nodes s' ! i)) * 1.2))
           \<and> 10 \<le> n_r (nodes s' ! i) \<and> n_r (nodes s' ! i) \<le> 24"
  proof (intro allI impI)
    fix i assume i: "i < length (nodes s')"
    show "n_degree (nodes s' ! i)
             = length (filter (\<lambda>e. e_a e = i \<or> e_b e = i) (edges s'))
           \<and> n_r (nodes s' ! i) = max 10 (min 24 (10 + real (n_degree (nodes s' ! i)) * 1.2))
           \<and> 10 \<le> n_r (nodes s' ! i) \<and> n_r (nodes s' ! i) \<le> 24"
      using di [OF i] ri [OF i] radius_of_bounds [of "n_degree (nodes s' ! i)"]
      by (simp add: incident_def radius_of_def)
  qed
  have b: "\<forall>i<length (nodes s'). \<forall>j<length (nodes s').
           n_degree (nodes s' ! i) \<le> n_degree (nodes s' ! j)
           \<longrightarrow> n_r (nodes s' ! i) \<le> n_r (nodes s' ! j)"
    using ri radius_of_mono by simp
  from sg a b show ?thesis by blast
qed

theorem setGraph_degree_radius_witness:
  "\<exists>s'. setGraph (new_view None) example_doc (\<lambda>k. 1 / 2) = Inr s'
     \<and> length (nodes s') = 4
     \<and> map n_degree (nodes s') = [0, 2, 3, 1]
     \<and> map (\<lambda>e. (e_a e, e_b e)) (edges s') = [(1, 2), (2, 1), (3, 2)]
     \<and> n_r (nodes s' ! 0) = 10 \<and> n_r (nodes s' ! 2) = 13.6
     \<and> n_r (nodes s' ! 0) \<le> n_r (nodes s' ! 2)"
proof -
  from setGraph_degree_radius [of "new_view None" example_doc "\<lambda>k. 1 / 2"]
  obtain s' where sg: "setGraph (new_view None) example_doc (\<lambda>k. 1 / 2) = Inr s'"
    and a: "\<forall>i<length (nodes s').
           n_degree (nodes s' ! i)
             = length (filter (\<lambda>e. e_a e = i \<or> e_b e = i) (edges s'))
           \<and> n_r (nodes s' ! i) = max 10 (min 24 (10 + real (n_degree (nodes s' ! i)) * 1.2))
           \<and> 10 \<le> n_r (nodes s' ! i) \<and> n_r (nodes s' ! i) \<le> 24"
    and b: "\<forall>i<length (nodes s'). \<forall>j<length (nodes s').
           n_degree (nodes s' ! i) \<le> n_degree (nodes s' ! j)
           \<longrightarrow> n_r (nodes s' ! i) \<le> n_r (nodes s' ! j)"
    by blast
  from setGraph_nodes [of "new_view None" example_doc "\<lambda>k. 1 / 2"] sg
  have e: "edges s' = build_edges (build_index (build_nodes example_doc)) (g_edges example_doc)"
    and i: "map n_id (nodes s') = map n_id (build_nodes example_doc)"
    and d: "map n_degree (nodes s') = map (incident (edges s')) [0..<length (build_nodes example_doc)]"
    by auto
  have l4: "length (nodes s') = 4"
    using arg_cong [OF i, of length] unfolding example_doc_ids by simp
  have l0: "length (build_nodes example_doc) = 4"
    using arg_cong [OF example_doc_ids, of length] by simp
  have dg: "map n_degree (nodes s') = [0, 2, 3, 1]"
    using d unfolding l0 e example_doc_incident .
  have d0: "n_degree (nodes s' ! 0) = 0" "n_degree (nodes s' ! 2) = 3"
    using arg_cong [OF dg, of "\<lambda>xs. xs ! 0"] arg_cong [OF dg, of "\<lambda>xs. xs ! 2"] l4
    by simp_all
  have r0: "n_r (nodes s' ! 0) = 10" using a l4 d0 by simp
  have r2: "n_r (nodes s' ! 2) = 13.6" using a l4 d0 by simp
  have "n_r (nodes s' ! 0) \<le> n_r (nodes s' ! 2)" using b l4 d0 by simp
  with sg l4 dg r0 r2 show ?thesis by (simp add: e example_doc_edges)
qed

subsection \<open>No nodes\<close>

text \<open>
  C9: when the document yields no node, \<open>setGraph\<close> returns a view with no node and no
  edge; on that view every tick returns the view unchanged, the hit test reports no hit
  at every position, the draw pass paints no stroke and no disc, and no pointer handler
  throws: press and release leave the view unchanged, a move only hides the tooltip.
\<close>

theorem zero_nodes_safe:
  assumes "build_nodes g = []"
  shows "\<exists>s'. setGraph s g rnd = Inr s' \<and> nodes s' = [] \<and> edges s' = []
     \<and> tick True s' = Inr s' \<and> tick False s' = Inr s' \<and> (\<forall>bs. ticks bs s' = Inr s')
     \<and> (\<forall>pos. findNodeAt s' pos = - 1)
     \<and> draw s' = Inr ([], [])
     \<and> (\<forall>button pos. mousedown s' button pos = s')
     \<and> mouseup s' = Inr s'
     \<and> (\<forall>pos. mousemove s' pos = Inr (s'\<lparr>tooltipShown := False\<rparr>))
     \<and> nodes (mouseleave s') = [] \<and> edges (mouseleave s') = []"
proof -
  from setGraph_nodes [of s g rnd] obtain s' where
    sg: "setGraph s g rnd = Inr s'"
    and e: "edges s' = build_edges (build_index (build_nodes g)) (g_edges g)"
    and l: "length (nodes s') = length (build_nodes g)"
    and r: "hoverIndex s' = - 1" "dragIndex s' = - 1"
    by auto
  have n: "nodes s' = []" using l assms by simp
  have "build_index (build_nodes g) = Map.empty" by (simp add: assms build_index_def)
  then have "make_edge (build_index (build_nodes g)) x = None" for x
    by (simp add: make_edge_def)
  then have "List.map_filter (make_edge (build_index (build_nodes g))) xs = []" for xs
    by (induction xs) simp_all
  then have es: "edges s' = []" by (simp add: e build_edges_def)
  have t: "tick b s' = Inr s'" for b by (simp add: tick_def n)
  have f: "findNodeAt s' pos = - 1" for pos by (simp add: findNodeAt_def n)
  have dr: "draw s' = Inr ([], [])" by (simp add: draw_def es n)
  have md: "mousedown s' button pos = s'" for button pos
    by (simp add: mousedown_def f Let_def)
  have mu: "mouseup s' = Inr s'" by (simp add: mouseup_def r)
  have mm: "mousemove s' pos = Inr (s'\<lparr>tooltipShown := False\<rparr>)" for pos
    by (simp add: mousemove_def r f Let_def)
  have ml: "nodes (mouseleave s') = []" "edges (mouseleave s') = []"
    by (simp_all add: mouseleave_def n es)
  from sg n es t f dr md mu mm ml ticks_empty [OF n] show ?thesis by simp
qed

theorem zero_nodes_safe_witness:
  "build_nodes blank_doc = []
   \<and> (\<exists>s'. setGraph (new_view (Some (800, 600))) blank_doc (\<lambda>k. 1 / 2) = Inr s'
        \<and> nodes s' = [] \<and> edges s' = []
        \<and> tick True s' = Inr s' \<and> tick False s' = Inr s'
        \<and> findNodeAt s' (400, 300) = - 1
        \<and> draw s' = Inr ([], [])
        \<and> mousedown s' 0 (400, 300) = s'
        \<and> mouseup s' = Inr s')"
proof -
  have h: "build_nodes blank_doc = []"
    by (simp add: blank_doc_def build_nodes_def make_node_def js_trim_def is_space_def Let_def)
  from zero_nodes_safe [OF h, of "new_view (Some (800, 600))" "\<lambda>k. 1 / 2"] h
  show ?thesis by blast
qed

subsection \<open>Duplicate ids\<close>

text \<open>
  C10: \<open>setGraph\<close> keeps one node for every raw node with a non-empty trimmed id, duplicates
  included; the index binds an id to the last node that carries it; a built edge's endpoints
  are what the index gives for its source and target, so an edge that names a duplicated id
  is attached to the last duplicate; every earlier duplicate has degree 0 and is the
  endpoint of no edge.
\<close>

theorem duplicate_ids_last_wins:
  "\<exists>s'. setGraph s g rnd = Inr s'
     \<and> map n_id (nodes s')
         = filter (\<lambda>k. k \<noteq> []) (map (\<lambda>r. js_trim (rn_id r)) (g_nodes g))
     \<and> (\<forall>k m. nodeIndex s' k = Some m \<longleftrightarrow>
           m < length (nodes s') \<and> n_id (nodes s' ! m) = k
           \<and> (\<forall>j. m < j \<and> j < length (nodes s') \<longrightarrow> n_id (nodes s' ! j) \<noteq> k))
     \<and> edges s' = List.map_filter (make_edge (nodeIndex s')) (g_edges g)
     \<and> (\<forall>r e. make_edge (nodeIndex s') r = Some e \<longrightarrow>
           nodeIndex s' (re_source r) = Some (e_a e) \<and> nodeIndex s' (re_target r) = Some (e_b e))
     \<and> (\<forall>i j. i < j \<and> j < length (nodes s') \<and> n_id (nodes s' ! i) = n_id (nodes s' ! j) \<longrightarrow>
           n_degree (nodes s' ! i) = 0 \<and> (\<forall>e\<in>set (edges s'). e_a e \<noteq> i \<and> e_b e \<noteq> i))"
proof -
  define ns0 where "ns0 = build_nodes g"
  from setGraph_nodes [of s g rnd] obtain s' where
    sg: "setGraph s g rnd = Inr s'"
    and e: "edges s' = build_edges (build_index ns0) (g_edges g)"
    and x: "nodeIndex s' = build_index ns0"
    and l: "length (nodes s') = length ns0"
    and i: "map n_id (nodes s') = map n_id ns0"
    and d: "map n_degree (nodes s') = map (incident (edges s')) [0..<length ns0]"
    unfolding ns0_def by auto
  have idn: "n_id (nodes s' ! m) = n_id (ns0 ! m)" if "m < length ns0" for m
    using arg_cong [OF i, of "\<lambda>xs. xs ! m"] that l by simp
  have a: "map n_id (nodes s')
         = filter (\<lambda>k. k \<noteq> []) (map (\<lambda>r. js_trim (rn_id r)) (g_nodes g))"
    using i by (simp add: ns0_def build_nodes_ids)
  have b: "nodeIndex s' k = Some m \<longleftrightarrow>
           m < length (nodes s') \<and> n_id (nodes s' ! m) = k
           \<and> (\<forall>j. m < j \<and> j < length (nodes s') \<longrightarrow> n_id (nodes s' ! j) \<noteq> k)" for k m
    unfolding x build_index_Some l using idn by auto
  have c: "edges s' = List.map_filter (make_edge (nodeIndex s')) (g_edges g)"
    by (simp add: e x build_edges_def)
  have m: "\<forall>r e. make_edge (nodeIndex s') r = Some e \<longrightarrow>
           nodeIndex s' (re_source r) = Some (e_a e) \<and> nodeIndex s' (re_target r) = Some (e_b e)"
    using make_edge_Some(1,2) by blast
  have f: "n_degree (nodes s' ! p) = 0 \<and> (\<forall>e\<in>set (edges s'). e_a e \<noteq> p \<and> e_b e \<noteq> p)"
    if pq: "p < q" "q < length (nodes s')" "n_id (nodes s' ! p) = n_id (nodes s' ! q)" for p q
  proof -
    have notlast: "nodeIndex s' k \<noteq> Some p" for k
    proof
      assume "nodeIndex s' k = Some p"
      then have "n_id (nodes s' ! p) = k"
        "\<forall>j. p < j \<and> j < length (nodes s') \<longrightarrow> n_id (nodes s' ! j) \<noteq> k"
        using b by blast+
      with pq show False by auto
    qed
    have ne: "e_a e' \<noteq> p \<and> e_b e' \<noteq> p" if "e' \<in> set (edges s')" for e'
    proof -
      from that obtain r where "make_edge (nodeIndex s') r = Some e'"
        unfolding c by (auto simp: set_map_filter)
      from make_edge_Some(1,2) [OF this] notlast show ?thesis by metis
    qed
    have "filter (\<lambda>e. e_a e = p \<or> e_b e = p) (edges s') = []"
      using ne by (simp add: filter_empty_conv)
    then have "incident (edges s') p = 0" by (simp add: incident_def)
    moreover have "n_degree (nodes s' ! p) = incident (edges s') p"
      using arg_cong [OF d, of "\<lambda>xs. xs ! p"] pq l by simp
    ultimately show ?thesis using ne by simp
  qed
  from sg a b c m f show ?thesis by blast
qed

theorem duplicate_ids_last_wins_witness:
  "\<exists>s'. setGraph (new_view None) example_doc (\<lambda>k. 1 / 2) = Inr s'
     \<and> map n_id (nodes s') = [[65], [65], [66], [68]]
     \<and> nodeIndex s' [65] = Some 1
     \<and> map (\<lambda>e. (e_a e, e_b e)) (edges s') = [(1, 2), (2, 1), (3, 2)]
     \<and> n_degree (nodes s' ! 0) = 0
     \<and> (\<forall>e\<in>set (edges s'). e_a e \<noteq> 0 \<and> e_b e \<noteq> 0)"
proof -
  from duplicate_ids_last_wins [of "new_view None" example_doc "\<lambda>k. 1 / 2"]
  obtain s' where sg: "setGraph (new_view None) example_doc (\<lambda>k. 1 / 2) = Inr s'"
    and a: "map n_id (nodes s')
         = filter (\<lambda>k. k \<noteq> []) (map (\<lambda>r. js_trim (rn_id r)) (g_nodes example_doc))"
    and b: "\<forall>k m. nodeIndex s' k = Some m \<longleftrightarrow>
           m < length (nodes s') \<and> n_id (nodes s' ! m) = k
           \<and> (\<forall>j. m < j \<and> j < length (nodes s') \<longrightarrow> n_id (nodes s' ! j) \<noteq> k)"
    and f: "\<forall>i j. i < j \<and> j < length (nodes s') \<and> n_id (nodes s' ! i) = n_id (nodes s' ! j) \<longrightarrow>
           n_degree (nodes s' ! i) = 0 \<and> (\<forall>e\<in>set (edges s'). e_a e \<noteq> i \<and> e_b e \<noteq> i)"
    by blast
  have ids: "map n_id (nodes s') = [[65], [65], [66], [68]]"
    unfolding a by (simp add: example_doc_def js_trim_def is_space_def)
  have l4: "length (nodes s') = 4" using arg_cong [OF ids, of length] by simp
  have n0: "n_id (nodes s' ! 0) = [65]" "n_id (nodes s' ! 1) = [65]"
    "n_id (nodes s' ! 2) = [66]" "n_id (nodes s' ! 3) = [68]"
    using arg_cong [OF ids, of "\<lambda>xs. xs ! 0"] arg_cong [OF ids, of "\<lambda>xs. xs ! 1"]
      arg_cong [OF ids, of "\<lambda>xs. xs ! 2"] arg_cong [OF ids, of "\<lambda>xs. xs ! 3"] l4
    by simp_all
  have later: "\<forall>j. 1 < j \<and> j < length (nodes s') \<longrightarrow> n_id (nodes s' ! j) \<noteq> [65]"
  proof (intro allI impI)
    fix j assume "1 < j \<and> j < length (nodes s')"
    with l4 have "j = 2 \<or> j = 3" by auto
    with n0 show "n_id (nodes s' ! j) \<noteq> [65]" by auto
  qed
  have x: "nodeIndex s' [65] = Some 1"
    using b l4 n0 later by simp
  have "(0::nat) < 1 \<and> 1 < length (nodes s') \<and> n_id (nodes s' ! 0) = n_id (nodes s' ! 1)"
    using l4 n0 by simp
  with f have z: "n_degree (nodes s' ! 0) = 0 \<and> (\<forall>e\<in>set (edges s'). e_a e \<noteq> 0 \<and> e_b e \<noteq> 0)"
    by blast
  from setGraph_nodes [of "new_view None" example_doc "\<lambda>k. 1 / 2"] sg
  have e: "edges s' = build_edges (build_index (build_nodes example_doc)) (g_edges example_doc)"
    by auto
  from sg ids x z show ?thesis by (simp add: e example_doc_edges)
qed

end
